theory Spec2Isabelle
  imports Main "HOL-Library.Word" "HOL-Library.AList"
begin

section \<open>Values, identifiers, exceptions and effects\<close>

text \<open>
  Python values that travel through the engine (action results, transformed data, the
  accumulator's entries, parameter schemas) are JSON-like.
\<close>

datatype pyval =
    PNone
  | PBool bool
  | PInt int
  | PStr string
  | PList "pyval list"
  | PDict "(string \<times> pyval) list"

text \<open>A \<^verbatim>\<open>uuid.UUID\<close> is a 128-bit number.\<close>

type_synonym uuid = "128 word"

text \<open>
  The exceptions the modelled code meets. \<open>InvalidArgument\<close> and \<open>ExecutionError\<close> are the
  two kinds the engine catches; every other exception propagates to the caller.
\<close>

datatype exn =
    InvalidArgument
  | ExecutionError
  | AttributeError
  | TypeError
  | ValueError
  | OtherException string

text \<open>
  The members of \<^verbatim>\<open>WalkoffEvent\<close> sent by the modelled code; \<open>OtherEvent\<close> stands for
  the remaining members of the enumeration, by name.
\<close>

datatype walkoff_event =
    WorkflowExecutionStart
  | WorkflowPaused
  | WorkflowAborted
  | WorkflowShutdown
  | ConditionalExpressionTrue
  | ConditionalExpressionFalse
  | ConditionSuccess
  | ConditionError
  | TransformSuccess
  | TransformError
  | OtherEvent string

text \<open>
  What the code does beyond returning, in the order it does it:
  \<^verbatim>\<open>WalkoffEvent.CommonWorkflowSignal.send(sender, event=..., data=...)\<close>, with the sender
  recorded by its id and \<open>data\<close> \<open>None\<close> when the keyword is not passed, and the calls
  of \<^verbatim>\<open>logger\<close>, recorded by level, message template and the ids of the elements
  formatted into the message.
\<close>

datatype level = DEBUG | INFO | WARNING | ERROR

datatype effect =
    Signal walkoff_event uuid "(string \<times> pyval) list option"
  | Log level string "uuid list"

type_synonym trace = "effect list"

text \<open>
  The accumulator is a Python dict: an association list in insertion order, written with
  \<^const>\<open>AList.update\<close> (an existing key keeps its place, a new key goes to the end).
\<close>

type_synonym accumulator = "(uuid \<times> pyval) list"

record argument =
  arg_name :: "string option"
  arg_value :: "pyval option"
  arg_reference :: "uuid option"

section \<open>Transform\<close>

record transform =
  t_id :: uuid
  t_app_name :: string
  t_action_name :: string
  t_arguments :: "argument list"
  t_data_param_name :: "string option"
  t_api :: pyval

record condition =
  c_id :: uuid
  c_app_name :: string
  c_action_name :: string
  c_is_negated :: bool
  c_arguments :: "argument list"
  c_transforms :: "transform list"
  c_data_param_name :: "string option"
  c_api :: pyval

text \<open>
  The collaborators of the evaluator, whose code is outside the modelled files: the
  \<^verbatim>\<open>Argument\<close> constructor, the two argument validators of
  \<^verbatim>\<open>walkoff.appgateway.validator\<close> and the action execution strategy. Each either
  raises or returns.
\<close>

record capabilities =
  new_argument :: "string option \<Rightarrow> pyval \<Rightarrow> exn + argument"
  validate_transform_parameters ::
    "pyval \<Rightarrow> argument list \<Rightarrow> string \<Rightarrow> accumulator \<Rightarrow> exn + (string \<times> pyval) list"
  validate_condition_parameters ::
    "pyval \<Rightarrow> argument list \<Rightarrow> string \<Rightarrow> accumulator \<Rightarrow> exn + (string \<times> pyval) list"
  execute_transform :: "transform \<Rightarrow> accumulator \<Rightarrow> (string \<times> pyval) list \<Rightarrow> exn + pyval"
  execute_condition :: "condition \<Rightarrow> accumulator \<Rightarrow> (string \<times> pyval) list \<Rightarrow> exn + bool"

text \<open>
  \<^verbatim>\<open>__update_arguments_with_data\<close> (the same in Transform and Condition): keep the
  arguments not named like the data parameter, then append the data argument.
\<close>

definition update_arguments_with_data ::
  "capabilities \<Rightarrow> argument list \<Rightarrow> string option \<Rightarrow> pyval \<Rightarrow> exn + argument list" where
  "update_arguments_with_data caps args data_param data =
     (case new_argument caps data_param data of
        Inl e \<Rightarrow> Inl e
      | Inr a \<Rightarrow> Inr (filter (\<lambda>x. arg_name x \<noteq> data_param) args @ [a]))"

text \<open>
  The body of the first \<^verbatim>\<open>try\<close> of \<^verbatim>\<open>Transform.execute\<close>: bind the data into the
  arguments and validate them against the transform's api.
\<close>

definition transform_validate ::
  "capabilities \<Rightarrow> transform \<Rightarrow> pyval \<Rightarrow> accumulator \<Rightarrow> exn + (string \<times> pyval) list" where
  "transform_validate caps t data acc =
     (case update_arguments_with_data caps (t_arguments t) (t_data_param_name t) data of
        Inl e \<Rightarrow> Inl e
      | Inr arguments \<Rightarrow>
          validate_transform_parameters caps (t_api t) arguments (t_action_name t) acc)"

text \<open>
  \<^verbatim>\<open>Transform.execute\<close>. The first \<^verbatim>\<open>try\<close> catches \<open>InvalidArgument\<close> only, the
  second \<open>ExecutionError\<close> only; both handlers send \<open>TransformError\<close> and the original
  input is returned.
\<close>

definition transform_execute ::
  "capabilities \<Rightarrow> transform \<Rightarrow> pyval \<Rightarrow> accumulator \<Rightarrow> trace
     \<Rightarrow> (exn + pyval) \<times> trace" where
  "transform_execute caps t data_in acc sigs =
     (let original_data_in = data_in in
      case transform_validate caps t data_in acc of
        Inl InvalidArgument \<Rightarrow>
          (Inr original_data_in,
           sigs @ [Signal TransformError (t_id t) None,
                   Log ERROR ''Transform has invalid input. Returning unmodified data'' [t_id t]])
      | Inl e \<Rightarrow> (Inl e, sigs)
      | Inr args \<Rightarrow>
          (case execute_transform caps t acc args of
             Inr result \<Rightarrow> (Inr result, sigs @ [Signal TransformSuccess (t_id t) None])
           | Inl ExecutionError \<Rightarrow>
               (Inr original_data_in,
                sigs @ [Log ERROR ''Transform encountered an error. Returning unmodified data''
                          [t_id t],
                        Signal TransformError (t_id t) None])
           | Inl e \<Rightarrow> (Inl e, sigs)))"

text \<open>
  The loop \<^verbatim>\<open>for transform in self.transforms: data = transform.execute(..., data, ...)\<close>
  at the head of \<^verbatim>\<open>Condition.execute\<close>.
\<close>

fun execute_transforms ::
  "capabilities \<Rightarrow> transform list \<Rightarrow> pyval \<Rightarrow> accumulator \<Rightarrow> trace
     \<Rightarrow> (exn + pyval) \<times> trace" where
  "execute_transforms caps [] data acc sigs = (Inr data, sigs)"
| "execute_transforms caps (t # ts) data acc sigs =
     (case transform_execute caps t data acc sigs of
        (Inl e, sigs') \<Rightarrow> (Inl e, sigs')
      | (Inr data', sigs') \<Rightarrow> execute_transforms caps ts data' acc sigs')"

section \<open>Condition\<close>

text \<open>
  \<^verbatim>\<open>Condition.execute\<close>: the transform chain, then validation (an \<open>InvalidArgument\<close>
  returns \<open>False\<close>), then the capability (an \<open>ExecutionError\<close> returns \<open>False\<close>);
  \<open>is_negated\<close> is read only on the path where both succeeded.
\<close>

text \<open>The body of the first \<^verbatim>\<open>try\<close> of \<^verbatim>\<open>Condition.execute\<close>.\<close>

definition condition_validate ::
  "capabilities \<Rightarrow> condition \<Rightarrow> pyval \<Rightarrow> accumulator \<Rightarrow> exn + (string \<times> pyval) list" where
  "condition_validate caps c data acc =
     (case update_arguments_with_data caps (c_arguments c) (c_data_param_name c) data of
        Inl e \<Rightarrow> Inl e
      | Inr arguments \<Rightarrow>
          validate_condition_parameters caps (c_api c) arguments (c_action_name c) acc)"

definition condition_execute ::
  "capabilities \<Rightarrow> condition \<Rightarrow> pyval \<Rightarrow> accumulator \<Rightarrow> trace
     \<Rightarrow> (exn + bool) \<times> trace" where
  "condition_execute caps c data_in acc sigs =
     (case execute_transforms caps (c_transforms c) data_in acc sigs of
        (Inl e, sigs1) \<Rightarrow> (Inl e, sigs1)
      | (Inr data, sigs1) \<Rightarrow>
          (case condition_validate caps c data acc of
             Inl InvalidArgument \<Rightarrow>
               (Inr False,
                sigs1 @ [Log ERROR ''Condition has invalid input. Returning False'' [c_id c],
                         Signal ConditionError (c_id c) None])
           | Inl e \<Rightarrow> (Inl e, sigs1)
           | Inr args \<Rightarrow>
               (let sigs2 = sigs1 @ [Log DEBUG ''Arguments passed to condition are valid'' [c_id c]]
                in case execute_condition caps c acc args of
                  Inr ret \<Rightarrow>
                    (Inr (if c_is_negated c then \<not> ret else ret),
                     sigs2 @ [Signal ConditionSuccess (c_id c) None])
                | Inl ExecutionError \<Rightarrow>
                    (Inr False,
                     sigs2 @ [Log ERROR ''Error encountered executing condition: Returning False''
                                [c_id c],
                              Signal ConditionError (c_id c) None])
                | Inl e \<Rightarrow> (Inl e, sigs2))))"

section \<open>ConditionalExpression\<close>

datatype operator = And | Or | Xor

datatype conditional_expression =
  ConditionalExpression
    (ce_id: uuid)
    (ce_operator: operator)
    (is_negated: bool)
    (conditions: "condition list")
    (child_expressions: "conditional_expression list")

text \<open>
  A generator expression \<^verbatim>\<open>(x.execute(...) for x in xs)\<close> is a lazy sequence of
  pending calls; each call, when made, may raise, and leaves its effects.
\<close>

type_synonym pending = "trace \<Rightarrow> (exn + bool) \<times> trace"

text \<open>
  \<^verbatim>\<open>all(...)\<close> and \<^verbatim>\<open>any(...)\<close> consume the generator up to the first element
  that decides the result; the calls behind it are never made.
\<close>

fun py_all :: "pending list \<Rightarrow> trace \<Rightarrow> (exn + bool) \<times> trace" where
  "py_all [] sigs = (Inr True, sigs)"
| "py_all (p # ps) sigs =
     (case p sigs of
        (Inl e, sigs') \<Rightarrow> (Inl e, sigs')
      | (Inr b, sigs') \<Rightarrow> (if b then py_all ps sigs' else (Inr False, sigs')))"

fun py_any :: "pending list \<Rightarrow> trace \<Rightarrow> (exn + bool) \<times> trace" where
  "py_any [] sigs = (Inr False, sigs)"
| "py_any (p # ps) sigs =
     (case p sigs of
        (Inl e, sigs') \<Rightarrow> (Inl e, sigs')
      | (Inr b, sigs') \<Rightarrow> (if b then (Inr True, sigs') else py_any ps sigs'))"

text \<open>\<^verbatim>\<open>_and\<close>: \<^verbatim>\<open>all(conditions) and all(child_expressions)\<close>.\<close>

definition and_operator ::
  "pending list \<Rightarrow> pending list \<Rightarrow> trace \<Rightarrow> (exn + bool) \<times> trace" where
  "and_operator conds children sigs =
     (case py_all conds sigs of
        (Inl e, sigs') \<Rightarrow> (Inl e, sigs')
      | (Inr b, sigs') \<Rightarrow> (if b then py_all children sigs' else (Inr False, sigs')))"

text \<open>\<^verbatim>\<open>_or\<close>: \<open>True\<close> when both lists are empty, else \<^verbatim>\<open>any(...) or any(...)\<close>.\<close>

definition or_operator ::
  "pending list \<Rightarrow> pending list \<Rightarrow> trace \<Rightarrow> (exn + bool) \<times> trace" where
  "or_operator conds children sigs =
     (if conds = [] \<and> children = [] then (Inr True, sigs)
      else
        (case py_any conds sigs of
           (Inl e, sigs') \<Rightarrow> (Inl e, sigs')
         | (Inr b, sigs') \<Rightarrow> (if b then (Inr True, sigs') else py_any children sigs')))"

text \<open>
  The loops of \<^verbatim>\<open>_xor\<close> over one group. The result \<open>None\<close> is the early
  \<^verbatim>\<open>return False\<close> at a second true element; \<open>Some f\<close> is the group running to its
  end with \<^verbatim>\<open>is_one_found = f\<close>.
\<close>

fun xor_group ::
  "pending list \<Rightarrow> bool \<Rightarrow> trace \<Rightarrow> (exn + bool option) \<times> trace" where
  "xor_group [] is_one_found sigs = (Inr (Some is_one_found), sigs)"
| "xor_group (p # ps) is_one_found sigs =
     (case p sigs of
        (Inl e, sigs') \<Rightarrow> (Inl e, sigs')
      | (Inr b, sigs') \<Rightarrow>
          (if b then
             (if is_one_found then (Inr None, sigs') else xor_group ps True sigs')
           else xor_group ps is_one_found sigs'))"

text \<open>
  \<^verbatim>\<open>_xor\<close>: \<open>True\<close> when both lists are empty; else the conditions, then the child
  expressions, and \<^verbatim>\<open>return is_one_found\<close> at the end.
\<close>

definition xor_operator ::
  "pending list \<Rightarrow> pending list \<Rightarrow> trace \<Rightarrow> (exn + bool) \<times> trace" where
  "xor_operator conds children sigs =
     (if conds = [] \<and> children = [] then (Inr True, sigs)
      else
        (case xor_group conds False sigs of
           (Inl e, sigs') \<Rightarrow> (Inl e, sigs')
         | (Inr None, sigs') \<Rightarrow> (Inr False, sigs')
         | (Inr (Some found), sigs') \<Rightarrow>
             (case xor_group children found sigs' of
                (Inl e, sigs'') \<Rightarrow> (Inl e, sigs'')
              | (Inr None, sigs'') \<Rightarrow> (Inr False, sigs'')
              | (Inr (Some found'), sigs'') \<Rightarrow> (Inr found', sigs''))))"

text \<open>The call through \<^verbatim>\<open>self.__operator_lookup[self.operator]\<close>.\<close>

definition operator_lookup ::
  "operator \<Rightarrow> pending list \<Rightarrow> pending list \<Rightarrow> trace \<Rightarrow> (exn + bool) \<times> trace" where
  "operator_lookup op = (case op of And \<Rightarrow> and_operator | Or \<Rightarrow> or_operator | Xor \<Rightarrow> xor_operator)"

text \<open>
  The end of \<^verbatim>\<open>ConditionalExpression.execute\<close>: invert when \<open>is_negated\<close>, send the
  True or False signal, return.
\<close>

definition finish_expression ::
  "uuid \<Rightarrow> bool \<Rightarrow> (exn + bool) \<times> trace \<Rightarrow> (exn + bool) \<times> trace" where
  "finish_expression i neg r =
     (case r of
        (Inl e, sigs') \<Rightarrow> (Inl e, sigs')
      | (Inr result0, sigs') \<Rightarrow>
          (let result = (if neg then \<not> result0 else result0) in
           (Inr result,
            sigs' @ [Signal (if result then ConditionalExpressionTrue
                             else ConditionalExpressionFalse) i None])))"

text \<open>\<^verbatim>\<open>ConditionalExpression.execute\<close>.\<close>

fun expression_execute ::
  "capabilities \<Rightarrow> conditional_expression \<Rightarrow> pyval \<Rightarrow> accumulator \<Rightarrow> trace
     \<Rightarrow> (exn + bool) \<times> trace" where
  "expression_execute caps (ConditionalExpression i op neg cs es) data_in acc sigs =
     finish_expression i neg
       (operator_lookup op
          (map (\<lambda>c sigs'. condition_execute caps c data_in acc sigs') cs)
          (map (\<lambda>x sigs'. expression_execute caps x data_in acc sigs') es)
          sigs)"

section \<open>Branch\<close>

record branch =
  b_id :: uuid
  source_id :: uuid
  destination_id :: uuid
  destination_type :: string
  priority :: int
  status :: string
  b_condition :: "conditional_expression option"

text \<open>
  \<^verbatim>\<open>ActionResult\<close>: what an executed node leaves as its output.
\<close>

record action_result =
  ar_result :: pyval
  ar_status :: string

text \<open>
  Modelled from the spec: \<^verbatim>\<open>Branch.execute(data_in, accumulator)\<close>, whose file is not
  among the sources. The branch evaluates its ConditionalExpression with the just-produced
  result as input and the full accumulator; an absent expression is always true. A true
  expression gives the destination id and kind, a false one \<^verbatim>\<open>(None, None)\<close>.
\<close>

definition branch_condition ::
  "capabilities \<Rightarrow> branch \<Rightarrow> action_result \<Rightarrow> accumulator \<Rightarrow> trace \<Rightarrow> (exn + bool) \<times> trace" where
  "branch_condition caps b data_in acc tr =
     (case b_condition b of
        None \<Rightarrow> (Inr True, tr)
      | Some ce \<Rightarrow> expression_execute caps ce (ar_result data_in) acc tr)"

definition branch_execute ::
  "capabilities \<Rightarrow> branch \<Rightarrow> action_result \<Rightarrow> accumulator \<Rightarrow> trace
     \<Rightarrow> (exn + uuid option \<times> string option) \<times> trace" where
  "branch_execute caps b data_in acc tr =
     (case branch_condition caps b data_in acc tr of
        (Inl e, tr') \<Rightarrow> (Inl e, tr')
      | (Inr matched, tr') \<Rightarrow>
          (if matched
           then (Inr (Some (destination_id b), Some (destination_type b)), tr')
           else (Inr (None, None), tr')))"

section \<open>Workflow\<close>

text \<open>
  A node of the graph, an Action or a ChildWorkflow: the engine uses its id, its device
  and its \<^verbatim>\<open>execute\<close> and \<^verbatim>\<open>get_output\<close> methods.
\<close>

record node =
  n_id :: uuid
  n_device_id :: "int option"

record workflow =
  wf_id :: uuid
  wf_name :: string
  actions :: "node list"
  branches :: "branch list"
  child_workflows :: "node list"
  start :: "uuid option"
  is_valid :: bool

text \<open>
  The engine-private fields of a Workflow object (\<^verbatim>\<open>_is_paused\<close>, \<^verbatim>\<open>_abort\<close>,
  \<^verbatim>\<open>_accumulator\<close>, \<^verbatim>\<open>_execution_id\<close>, \<^verbatim>\<open>_instance_repo\<close>,
  \<^verbatim>\<open>_executing_action\<close>) and the trace of effects so far. The instance repository
  is \<open>None\<close> after \<^verbatim>\<open>__init__\<close>; otherwise it is the list of devices with a live
  instance.
\<close>

record workflow_state =
  is_paused :: bool
  abort :: bool
  accumulator :: accumulator
  execution_id :: string
  instance_repo :: "int list option"
  executing_action :: "uuid option"
  trace :: trace

text \<open>
  The dict comprehension \<^verbatim>\<open>{branch.id: 0 for branch in self.branches}\<close>.
\<close>

definition seed_accumulator :: "branch list \<Rightarrow> accumulator" where
  "seed_accumulator bs = foldl (\<lambda>d b. AList.update (b_id b) (PInt 0) d) [] bs"

text \<open>The runtime fields as \<^verbatim>\<open>Workflow.__init__\<close> sets them.\<close>

definition workflow_init :: "workflow \<Rightarrow> workflow_state" where
  "workflow_init w =
     \<lparr>is_paused = False, abort = False, accumulator = seed_accumulator (branches w),
      execution_id = ''default'', instance_repo = None, executing_action = None, trace = []\<rparr>"

text \<open>\<^verbatim>\<open>Workflow.init_on_load\<close>, run when the workflow is loaded from the database.\<close>

definition init_on_load :: "workflow \<Rightarrow> workflow_state" where
  "init_on_load w =
     \<lparr>is_paused = False, abort = False, accumulator = seed_accumulator (branches w),
      execution_id = ''default'', instance_repo = Some [], executing_action = None, trace = []\<rparr>"

definition get_action_by_id :: "workflow \<Rightarrow> uuid \<Rightarrow> node option" where
  "get_action_by_id w action_id = find (\<lambda>action. n_id action = action_id) (actions w)"

definition get_child_workflow_by_id :: "workflow \<Rightarrow> uuid \<Rightarrow> node option" where
  "get_child_workflow_by_id w workflow_id =
     find (\<lambda>x. n_id x = workflow_id) (child_workflows w)"

text \<open>\<^verbatim>\<open>Workflow.pause\<close> and \<^verbatim>\<open>Workflow.abort\<close>.\<close>

definition pause :: "workflow \<Rightarrow> workflow_state \<Rightarrow> workflow_state" where
  "pause w s = s\<lparr>is_paused := True, trace := trace s @ [Log INFO ''Pausing workflow'' [wf_id w]]\<rparr>"

definition abort_workflow :: "workflow \<Rightarrow> workflow_state \<Rightarrow> workflow_state" where
  "abort_workflow w s =
     s\<lparr>abort := True, trace := trace s @ [Log INFO ''Aborting workflow'' [wf_id w]]\<rparr>"

text \<open>\<^verbatim>\<open>Workflow.__get_branches_by_action_id\<close>.\<close>

definition get_branches_by_action_id :: "workflow \<Rightarrow> uuid \<Rightarrow> branch list" where
  "get_branches_by_action_id w action_id =
     (if branches w \<noteq> [] then filter (\<lambda>b. source_id b = action_id) (branches w) else [])"

text \<open>
  The \<^verbatim>\<open>for branch in branches\<close> loop of \<^verbatim>\<open>get_branch\<close>: the first branch whose
  \<^verbatim>\<open>execute\<close> gives a destination id that is not \<open>None\<close> is returned at once.
\<close>

fun first_branch ::
  "capabilities \<Rightarrow> workflow \<Rightarrow> branch list \<Rightarrow> action_result \<Rightarrow> accumulator \<Rightarrow> trace
     \<Rightarrow> (exn + uuid option \<times> string option) \<times> trace" where
  "first_branch caps w [] output acc tr = (Inr (None, None), tr)"
| "first_branch caps w (b # bs) output acc tr =
     (case branch_execute caps b output acc tr of
        (Inl e, tr') \<Rightarrow> (Inl e, tr')
      | (Inr (dest_id, dest_type), tr') \<Rightarrow>
          (if dest_id \<noteq> None
           then (Inr (dest_id, dest_type),
                 tr' @ [Log DEBUG ''Branch with destination chosen by workflow''
                          (b_id b # (case dest_id of Some d \<Rightarrow> [d] | None \<Rightarrow> [])
                           @ [wf_id w])])
           else first_branch caps w bs output acc tr'))"

text \<open>
  \<^verbatim>\<open>Workflow.get_branch\<close>. Python's \<^verbatim>\<open>sorted\<close> is stable, as \<^const>\<open>sort_key\<close> is.
\<close>

definition get_branch ::
  "capabilities \<Rightarrow> workflow \<Rightarrow> node \<Rightarrow> action_result \<Rightarrow> accumulator \<Rightarrow> trace
     \<Rightarrow> (exn + uuid option \<times> string option) \<times> trace" where
  "get_branch caps w current_action output acc tr =
     (if branches w \<noteq> []
      then first_branch caps w
             (sort_key priority (get_branches_by_action_id w (n_id current_action)))
             output acc tr
      else (Inr (None, None), tr))"

text \<open>
  Modelled from the spec: the App Instance Repository (\<^verbatim>\<open>setup_app_instance\<close>,
  \<^verbatim>\<open>shutdown_instances\<close>), whose file is not among the sources. An instance is created
  lazily for the node's device, reused by later nodes on the same device, and all are shut
  down together.
\<close>

definition setup_app_instance :: "int list \<Rightarrow> node \<Rightarrow> int option \<times> int list" where
  "setup_app_instance repo n =
     (case n_device_id n of
        None \<Rightarrow> (None, repo)
      | Some d \<Rightarrow> (Some d, if d \<in> set repo then repo else repo @ [d]))"

definition shutdown_instances :: "int list \<Rightarrow> int list" where
  "shutdown_instances repo = []"

text \<open>
  The dict comprehension \<^verbatim>\<open>{str(key): value for key, value in self._accumulator.items()}\<close>
  of \<^verbatim>\<open>__shutdown\<close>; \<open>str\<close> is Python's \<^verbatim>\<open>str\<close> on the keys.
\<close>

definition snapshot :: "(uuid \<Rightarrow> string) \<Rightarrow> accumulator \<Rightarrow> (string \<times> pyval) list" where
  "snapshot str acc = foldl (\<lambda>d (key, v). AList.update (str key) v d) [] acc"

text \<open>
  What executing one node gives the engine: the value \<^verbatim>\<open>action.execute\<close> returns
  (\<open>None\<close> when falsy), the node's \<^verbatim>\<open>get_output()\<close> afterwards, and the calls of
  \<^verbatim>\<open>pause\<close> and \<^verbatim>\<open>abort\<close> that the worker's control listener made while the node
  ran.
\<close>

datatype control = PAUSE | ABORT

record node_run =
  returned :: "action_result option"
  get_output :: "action_result option"
  controls :: "control list"

text \<open>
  The collaborators of the engine: the node's \<^verbatim>\<open>execute\<close> (given the accumulator, the
  start arguments, the resume flag and the device whose instance is passed), and Python's
  \<^verbatim>\<open>UUID(...)\<close> and \<^verbatim>\<open>str(...)\<close> on identifiers.
\<close>

record engine =
  node_execute ::
    "node \<Rightarrow> accumulator \<Rightarrow> argument list option \<Rightarrow> bool \<Rightarrow> int option \<Rightarrow> exn + node_run"
  uuid_of_string :: "string \<Rightarrow> uuid option"
  str_of_uuid :: "uuid \<Rightarrow> string"

definition apply_control :: "workflow \<Rightarrow> workflow_state \<Rightarrow> control \<Rightarrow> workflow_state" where
  "apply_control w s c = (case c of PAUSE \<Rightarrow> pause w s | ABORT \<Rightarrow> abort_workflow w s)"

text \<open>\<^verbatim>\<open>Workflow.__shutdown\<close>.\<close>

definition shutdown :: "engine \<Rightarrow> workflow \<Rightarrow> workflow_state \<Rightarrow> exn + workflow_state" where
  "shutdown eng w s =
     (case instance_repo s of
        None \<Rightarrow> Inl AttributeError
      | Some repo \<Rightarrow>
          Inr (s\<lparr>instance_repo := Some (shutdown_instances repo),
                 trace := trace s @
                   [Signal WorkflowShutdown (wf_id w)
                      (Some (snapshot (str_of_uuid eng) (accumulator s))),
                    Log INFO ''Workflow completed'' [wf_id w]]\<rparr>))"

text \<open>
  The part of the generator \<^verbatim>\<open>Workflow.__actions\<close> that runs between two nodes:
  \<^verbatim>\<open>get_branch\<close> on the node just executed, then the lookup of the next node by the
  destination's kind (\<open>None\<close> when no branch gave a destination).
\<close>

definition actions_next ::
  "capabilities \<Rightarrow> workflow \<Rightarrow> node \<Rightarrow> action_result \<Rightarrow> workflow_state
     \<Rightarrow> (exn + node option) \<times> workflow_state" where
  "actions_next caps w current out s =
     (case get_branch caps w current out (accumulator s) (trace s) of
        (Inl e, tr) \<Rightarrow> (Inl e, s\<lparr>trace := tr\<rparr>)
      | (Inr (next_id, next_type), tr) \<Rightarrow>
          (Inr (case next_id of
                  None \<Rightarrow> None
                | Some i \<Rightarrow>
                    if next_type = Some ''action''
                    then get_action_by_id w i
                    else get_child_workflow_by_id w i),
           s\<lparr>trace := tr\<rparr>))"

text \<open>
  One pass through the body of the \<^verbatim>\<open>for action in ...\<close> loop of
  \<^verbatim>\<open>Workflow.__execute\<close>, followed by what the loop's next pull from
  \<^verbatim>\<open>__actions\<close> runs. \<open>Done r\<close> is a \<^verbatim>\<open>yield\<close> of the body or an exception
  leaving it; \<open>Next\<close> carries the next node (if any), the remaining start arguments and
  \<^verbatim>\<open>last_result\<close>.
\<close>

datatype step_result =
    Done "exn + pyval"
  | Next "node option" "argument list option" pyval

definition step ::
  "capabilities \<Rightarrow> engine \<Rightarrow> workflow \<Rightarrow> node \<Rightarrow> argument list option \<Rightarrow> bool
     \<Rightarrow> workflow_state \<Rightarrow> step_result \<times> workflow_state" where
  "step caps eng w action start_arguments resume s =
     (let s1 = s\<lparr>executing_action := Some (n_id action),
                  trace := trace s @ [Log DEBUG ''Executing action of workflow''
                                        [n_id action, wf_id w]]\<rparr>
      in
      if is_paused s1 then
        (Done (Inr (PStr ''Paused'')),
         s1\<lparr>is_paused := False,
            trace := trace s1 @ [Signal WorkflowPaused (wf_id w) None,
                                 Log DEBUG ''Paused workflow'' [wf_id w]]\<rparr>)
      else if abort s1 then
        (Done (Inr (PStr ''Aborted'')),
         s1\<lparr>abort := False,
            trace := trace s1 @ [Signal WorkflowAborted (wf_id w) None,
                                 Log INFO ''Aborted workflow'' [wf_id w]]\<rparr>)
      else
        (case instance_repo s1 of
           None \<Rightarrow> (Done (Inl AttributeError), s1)
         | Some repo \<Rightarrow>
             (let (device_id, repo') = setup_app_instance repo action;
                  s2 = s1\<lparr>instance_repo := Some repo'\<rparr>;
                  instance = (case device_id of
                                None \<Rightarrow> None
                              | Some d \<Rightarrow> if d \<noteq> 0 then Some d else None)
              in
              case node_execute eng action (accumulator s2) start_arguments resume instance of
                Inl e \<Rightarrow> (Done (Inl e), s2)
              | Inr r \<Rightarrow>
                  (let s3 = foldl (apply_control w) s2 (controls r);
                       start_arguments' =
                         (case start_arguments of
                            None \<Rightarrow> None
                          | Some args \<Rightarrow> if args \<noteq> [] then None else Some args)
                   in
                   if (case returned r of None \<Rightarrow> False | Some res \<Rightarrow> ar_status res = ''trigger'')
                   then (Done (Inr (PStr ''Triggered'')), s3)
                   else
                     (case get_output r of
                        None \<Rightarrow> (Done (Inl AttributeError), s3)
                      | Some out \<Rightarrow>
                          (let s4 = s3\<lparr>accumulator :=
                                         AList.update (n_id action) (ar_result out)
                                           (accumulator s3)\<rparr>
                           in
                           case actions_next caps w action out s4 of
                             (Inl e, s5) \<Rightarrow> (Done (Inl e), s5)
                           | (Inr next_node, s5) \<Rightarrow>
                               (Next next_node start_arguments' (ar_result out), s5)))))))"

text \<open>
  \<^verbatim>\<open>Workflow.__execute\<close> up to its first \<^verbatim>\<open>yield\<close>, which is all that
  \<^verbatim>\<open>next(executor)\<close> in \<^verbatim>\<open>execute\<close> runs. The graph may be cyclic, so the loop
  takes fuel, one unit per node; the result \<open>None\<close> is a loop that has not yielded when
  the fuel is spent. When there is no next node the loop ends, \<^verbatim>\<open>__shutdown\<close> runs and
  \<^verbatim>\<open>last_result\<close> is yielded.
\<close>

fun run ::
  "nat \<Rightarrow> capabilities \<Rightarrow> engine \<Rightarrow> workflow \<Rightarrow> node option \<Rightarrow> argument list option
     \<Rightarrow> bool \<Rightarrow> pyval \<Rightarrow> workflow_state \<Rightarrow> (exn + pyval) option \<times> workflow_state" where
  "run fuel caps eng w None start_arguments resume last_result s =
     (case shutdown eng w s of
        Inl e \<Rightarrow> (Some (Inl e), s)
      | Inr s' \<Rightarrow> (Some (Inr last_result), s'))"
| "run 0 caps eng w (Some action) start_arguments resume last_result s = (None, s)"
| "run (Suc fuel) caps eng w (Some action) start_arguments resume last_result s =
     (case step caps eng w action start_arguments resume s of
        (Done r, s') \<Rightarrow> (Some r, s')
      | (Next next_executable start_arguments' last_result', s') \<Rightarrow>
          run fuel caps eng w next_executable start_arguments' resume last_result' s')"

text \<open>
  \<^verbatim>\<open>Workflow.execute\<close>. The start is a UUID, a string to be parsed by
  \<^verbatim>\<open>UUID(start)\<close>, or absent, in which case the workflow's own start is taken; an
  invalid workflow only logs, and the call returns \<open>None\<close>.
\<close>

datatype start_ref = Start_uuid uuid | Start_str string

definition execute ::
  "nat \<Rightarrow> capabilities \<Rightarrow> engine \<Rightarrow> workflow \<Rightarrow> string \<Rightarrow> start_ref option
     \<Rightarrow> argument list option \<Rightarrow> bool \<Rightarrow> workflow_state
     \<Rightarrow> (exn + pyval) option \<times> workflow_state" where
  "execute fuel caps eng w exec_id start_opt start_arguments resume s =
     (if is_valid w then
        (let s1 = s\<lparr>execution_id := exec_id,
                     trace := trace s @ [Log INFO ''Executing workflow'' [wf_id w],
                                         Signal WorkflowExecutionStart (wf_id w) None]\<rparr>
         in
         case (case start_opt of
                 Some (Start_uuid u) \<Rightarrow> Inr u
               | Some (Start_str x) \<Rightarrow>
                   (case uuid_of_string eng x of None \<Rightarrow> Inl ValueError | Some u \<Rightarrow> Inr u)
               | None \<Rightarrow> (case start w of None \<Rightarrow> Inl TypeError | Some u \<Rightarrow> Inr u)) of
           Inl e \<Rightarrow> (Some (Inl e), s1)
         | Inr u \<Rightarrow>
             run fuel caps eng w
               (case get_action_by_id w u of
                  Some a \<Rightarrow> Some a
                | None \<Rightarrow> get_child_workflow_by_id w u)
               start_arguments resume PNone s1)
      else
        (Some (Inr PNone),
         s\<lparr>trace := trace s @ [Log ERROR ''Workflow is invalid, yet executor attempted to execute.''
                                 []]\<rparr>))"

section \<open>Results receiver\<close>

type_synonym bytes = "8 word list"

text \<open>
  The fields of \<^verbatim>\<open>ZmqWorkflowResultsReceiver\<close> that the loop uses, with the events it
  has republished through \<^verbatim>\<open>event.send(sender, data=data)\<close> and whether the socket has
  been closed.
\<close>

record receiver =
  thread_exit :: bool
  workflows_executed :: nat
  republished :: "(walkoff_event \<times> pyval \<times> pyval) list"
  socket_closed :: bool

text \<open>
  The collaborators of the receiver: \<^verbatim>\<open>message_converter.to_event_callback\<close>, which
  gives the triple (event, sender, data) with \<open>None\<close> for a missing event or sender, and
  the subscribers behind \<^verbatim>\<open>event.send\<close>. Each either raises or returns.
\<close>

record receiver_env =
  to_event_callback :: "bytes \<Rightarrow> exn + (walkoff_event option \<times> pyval option \<times> pyval)"
  event_send :: "walkoff_event \<Rightarrow> pyval \<Rightarrow> pyval \<Rightarrow> exn option"

definition receiver_init :: receiver where
  "receiver_init =
     \<lparr>thread_exit = False, workflows_executed = 0, republished = [], socket_closed = False\<rparr>"

definition increment_execution_count :: "receiver \<Rightarrow> receiver" where
  "increment_execution_count r = r\<lparr>workflows_executed := workflows_executed r + 1\<rparr>"

text \<open>
  \<^verbatim>\<open>_send_callback\<close>. Nothing here catches an exception: one raised by the converter or
  by a subscriber leaves the method (the first component is then \<open>Some\<close>).
\<close>

definition send_callback :: "receiver_env \<Rightarrow> receiver \<Rightarrow> bytes \<Rightarrow> exn option \<times> receiver" where
  "send_callback env r message_bytes =
     (case to_event_callback env message_bytes of
        Inl e \<Rightarrow> (Some e, r)
      | Inr (event, sender, data) \<Rightarrow>
          (case (sender, event) of
             (Some sd, Some ev) \<Rightarrow>
               (case event_send env ev sd data of
                  Some e \<Rightarrow> (Some e, r)
                | None \<Rightarrow>
                    (let r1 = r\<lparr>republished := republished r @ [(ev, sd, data)]\<rparr>
                     in (None,
                         if ev \<in> set [WorkflowShutdown, WorkflowAborted]
                         then increment_execution_count r1 else r1)))
           | _ \<Rightarrow> (None, r)))"

text \<open>
  What one turn of the \<^verbatim>\<open>while True\<close> loop of \<^verbatim>\<open>receive_results\<close> meets: another
  thread has set \<^verbatim>\<open>thread_exit\<close> since the last turn, the non-blocking
  \<^verbatim>\<open>recv\<close> raises \<^verbatim>\<open>zmq.ZMQError\<close> (nothing to read), or it returns a message.
\<close>

datatype arrival = Exit_requested | No_message | Message bytes

text \<open>
  How the loop stands after a finite sequence of arrivals: it has returned (after closing
  the socket), an exception has left it, or it is still polling.
\<close>

datatype loop_outcome = Returned | Raised exn | Polling

fun receive_results :: "receiver_env \<Rightarrow> arrival list \<Rightarrow> receiver \<Rightarrow> loop_outcome \<times> receiver" where
  "receive_results env [] r =
     (if thread_exit r then (Returned, r\<lparr>socket_closed := True\<rparr>) else (Polling, r))"
| "receive_results env (x # xs) r =
     (if thread_exit r then (Returned, r\<lparr>socket_closed := True\<rparr>)
      else
        (case x of
           Exit_requested \<Rightarrow> receive_results env xs (r\<lparr>thread_exit := True\<rparr>)
         | No_message \<Rightarrow> receive_results env xs r
         | Message message_bytes \<Rightarrow>
             (case send_callback env r message_bytes of
                (Some e, r') \<Rightarrow> (Raised e, r')
              | (None, r') \<Rightarrow> receive_results env xs r')))"

section \<open>MultiprocessedExecutor.pause_workflow\<close>

datatype workflow_status_enum = pending | running | paused | awaiting_data | completed | aborted

text \<open>A row of the \<^verbatim>\<open>WorkflowStatus\<close> table.\<close>

record workflow_status =
  ws_execution_id :: string
  ws_status :: workflow_status_enum

text \<open>
  The executor: the messages handed to \<^verbatim>\<open>self.manager\<close> (\<open>None\<close> until
  \<^verbatim>\<open>initialize_threading\<close> has created it), the lines printed and the warnings logged.
\<close>

record executor =
  manager :: "(control \<times> string) list option"
  printed :: "string list"
  warnings :: "string list"

text \<open>
  \<^verbatim>\<open>MultiprocessedExecutor.pause_workflow\<close>. The query
  \<^verbatim>\<open>filter_by(execution_id=execution_id).first()\<close> gives the first matching row or
  \<open>None\<close>; the \<^verbatim>\<open>print\<close> that follows reads \<^verbatim>\<open>workflow_status.__dict__\<close>, which
  raises \<open>AttributeError\<close> on \<open>None\<close>.
\<close>

definition pause_workflow ::
  "workflow_status list \<Rightarrow> executor \<Rightarrow> string \<Rightarrow> (exn + bool) \<times> executor" where
  "pause_workflow db ex exec_id =
     (let workflow_status = find (\<lambda>row. ws_execution_id row = exec_id) db in
      case workflow_status of
        None \<Rightarrow> (Inl AttributeError, ex)
      | Some row \<Rightarrow>
          (let ex1 = ex\<lparr>printed := printed ex @ [''Workflow status: {}'']\<rparr> in
           if ws_status row = running then
             (let ex2 = ex1\<lparr>printed := printed ex1 @ [''Sending pause message'']\<rparr> in
              case manager ex2 of
                None \<Rightarrow> (Inl AttributeError, ex2)
              | Some sent \<Rightarrow> (Inr True, ex2\<lparr>manager := Some (sent @ [(PAUSE, exec_id)])\<rparr>))
           else
             (Inr False,
              ex1\<lparr>warnings := warnings ex1 @
                     [''Cannot pause workflow {0}. Invalid key, or workflow not running.'']\<rparr>)))"

section \<open>Auxiliary definitions\<close>

text \<open>The same tree with the root's \<open>is_negated\<close> flag toggled.\<close>

definition toggle_negation :: "conditional_expression \<Rightarrow> conditional_expression" where
  "toggle_negation e =
     (case e of ConditionalExpression i op neg cs es \<Rightarrow> ConditionalExpression i op (\<not> neg) cs es)"

subsection \<open>A concrete app\<close>

text \<open>
  A small app to run the model on. Its data parameter is called \<open>value\<close>. Validation
  rejects the value \<open>None\<close> with \<open>InvalidArgument\<close> and otherwise binds every argument
  that has a name and a value. The transform increments an integer, the condition tests
  that an integer is positive; on anything but an integer both raise \<open>ExecutionError\<close>.
\<close>

definition example_value :: "(string \<times> pyval) list \<Rightarrow> pyval" where
  "example_value args = (case map_of args ''value'' of Some v \<Rightarrow> v | None \<Rightarrow> PNone)"

definition example_validate ::
  "pyval \<Rightarrow> argument list \<Rightarrow> string \<Rightarrow> accumulator \<Rightarrow> exn + (string \<times> pyval) list" where
  "example_validate api arguments action_name acc =
     (if list_ex (\<lambda>a. arg_value a = Some PNone) arguments then Inl InvalidArgument
      else Inr (List.map_filter
                  (\<lambda>a. case (arg_name a, arg_value a) of
                          (Some n, Some v) \<Rightarrow> Some (n, v)
                        | _ \<Rightarrow> None) arguments))"

definition example_caps :: capabilities where
  "example_caps =
     \<lparr>new_argument = (\<lambda>n d. Inr \<lparr>arg_name = n, arg_value = Some d, arg_reference = None\<rparr>),
      validate_transform_parameters = example_validate,
      validate_condition_parameters = example_validate,
      execute_transform =
        (\<lambda>t acc args. case example_value args of
                         PInt n \<Rightarrow> Inr (PInt (n + 1))
                       | _ \<Rightarrow> Inl ExecutionError),
      execute_condition =
        (\<lambda>c acc args. case example_value args of
                         PInt n \<Rightarrow> Inr (0 < n)
                       | _ \<Rightarrow> Inl ExecutionError)\<rparr>"

definition example_transform :: transform where
  "example_transform =
     \<lparr>t_id = 9, t_app_name = ''HelloWorld'', t_action_name = ''increment'', t_arguments = [],
      t_data_param_name = Some ''value'', t_api = PList []\<rparr>"

definition example_condition :: "bool \<Rightarrow> transform list \<Rightarrow> condition" where
  "example_condition neg ts =
     \<lparr>c_id = 7, c_app_name = ''HelloWorld'', c_action_name = ''positive'', c_is_negated = neg,
      c_arguments = [], c_transforms = ts, c_data_param_name = Some ''value'', c_api = PList []\<rparr>"

subsection \<open>A concrete workflow\<close>

text \<open>
  Four actions. Action 1 has four branches: of priority 5 to action 2, of priority 0 to
  action 2 behind a negated empty expression (always false), of priority 1 to action 3
  behind an empty \<open>and\<close> expression (always true), of priority 3 to action 4. Action 2
  has one branch to action 4, action 3 one branch back to action 1 behind an always-false
  expression. The node of id \<open>i\<close> returns the result \<open>10 * i\<close> with status Success.
\<close>

definition example_node :: "uuid \<Rightarrow> node" where
  "example_node i = \<lparr>n_id = i, n_device_id = None\<rparr>"

definition example_branch ::
  "uuid \<Rightarrow> uuid \<Rightarrow> uuid \<Rightarrow> int \<Rightarrow> conditional_expression option \<Rightarrow> branch" where
  "example_branch i src dst p ce =
     \<lparr>b_id = i, source_id = src, destination_id = dst, destination_type = ''action'',
      priority = p, status = ''Success'', b_condition = ce\<rparr>"

definition example_workflow :: workflow where
  "example_workflow =
     \<lparr>wf_id = 100, wf_name = ''example'',
      actions = [example_node 1, example_node 2, example_node 3, example_node 4],
      branches = [example_branch 11 1 2 5 None,
                  example_branch 12 2 4 0 None,
                  example_branch 15 1 2 0 (Some (ConditionalExpression 25 And True [] [])),
                  example_branch 13 1 3 1 (Some (ConditionalExpression 23 And False [] [])),
                  example_branch 14 1 4 3 None,
                  example_branch 16 3 1 2 (Some (ConditionalExpression 26 Or True [] []))],
      child_workflows = [], start = Some 1, is_valid = True\<rparr>"

definition hex_digit :: "nat \<Rightarrow> char" where
  "hex_digit n = ''0123456789abcdef'' ! (n mod 16)"

definition example_engine :: engine where
  "example_engine =
     \<lparr>node_execute =
        (\<lambda>n acc args resume instance.
           Inr \<lparr>returned = Some \<lparr>ar_result = PInt (10 * uint (n_id n)),
                                 ar_status = ''Success''\<rparr>,
                get_output = Some \<lparr>ar_result = PInt (10 * uint (n_id n)),
                                   ar_status = ''Success''\<rparr>,
                controls = []\<rparr>),
      uuid_of_string = (\<lambda>x. None),
      str_of_uuid = (\<lambda>u. [hex_digit (unat u div 16), hex_digit (unat u)])\<rparr>"

subsection \<open>Statements about the receiver\<close>

text \<open>
  What handling one arrival comes to. \<open>raised\<close> is the exception that leaves
  \<open>_send_callback\<close>, from the converter or from a subscriber, if any. \<open>delivered\<close> is the
  event republished: the converter gave an event and a sender, neither \<open>None\<close>, and the
  subscribers returned. An arrival is counted when the event delivered is WorkflowShutdown
  or WorkflowAborted.
\<close>

definition raised :: "receiver_env \<Rightarrow> arrival \<Rightarrow> exn option" where
  "raised env x =
     (case x of
        Message m \<Rightarrow>
          (case to_event_callback env m of
             Inl e \<Rightarrow> Some e
           | Inr (event, sender, data) \<Rightarrow>
               (case (sender, event) of
                  (Some sd, Some ev) \<Rightarrow> event_send env ev sd data
                | _ \<Rightarrow> None))
      | _ \<Rightarrow> None)"

definition delivered :: "receiver_env \<Rightarrow> arrival \<Rightarrow> (walkoff_event \<times> pyval \<times> pyval) option" where
  "delivered env x =
     (case x of
        Message m \<Rightarrow>
          (case to_event_callback env m of
             Inl e \<Rightarrow> None
           | Inr (event, sender, data) \<Rightarrow>
               (case (sender, event) of
                  (Some sd, Some ev) \<Rightarrow>
                    (if event_send env ev sd data = None then Some (ev, sd, data) else None)
                | _ \<Rightarrow> None))
      | _ \<Rightarrow> None)"

definition counted :: "receiver_env \<Rightarrow> arrival \<Rightarrow> bool" where
  "counted env x =
     (case delivered env x of
        Some (ev, sd, d) \<Rightarrow> ev = WorkflowShutdown \<or> ev = WorkflowAborted
      | None \<Rightarrow> False)"

text \<open>
  A converter to run the receiver on: the first byte selects the event, and the empty
  message cannot be parsed. The subscriber of WorkflowExecutionStart raises.
\<close>

definition example_receiver_env :: receiver_env where
  "example_receiver_env =
     \<lparr>to_event_callback =
        (\<lambda>m. case m of
                [] \<Rightarrow> Inl (OtherException ''DecodeError'')
              | b # _ \<Rightarrow>
                  Inr (if b = 1 then (Some WorkflowShutdown, Some (PDict []), PNone)
                       else if b = 2 then (Some WorkflowAborted, Some (PDict []), PNone)
                       else if b = 3 then (Some WorkflowShutdown, None, PNone)
                       else if b = 4 then (Some WorkflowPaused, Some (PDict []), PNone)
                       else if b = 5 then (Some WorkflowExecutionStart, Some (PDict []), PNone)
                       else (None, None, PNone))),
      event_send =
        (\<lambda>ev sd d. if ev = WorkflowExecutionStart then Some (OtherException ''KeyError'')
                    else None)\<rparr>"

subsection \<open>Statements about branch resolution\<close>


subsection \<open>Statements about a completed run\<close>

text \<open>
  A call has completed when the last thing it did is the log line that ends
  \<open>__shutdown\<close>.
\<close>

definition completed :: "workflow \<Rightarrow> workflow_state \<Rightarrow> bool" where
  "completed w s =
     (trace s \<noteq> [] \<and> last (trace s) = Log INFO ''Workflow completed'' [wf_id w])"

text \<open>
  The first node of a call of \<open>execute\<close>: the start id as \<open>execute\<close> resolves it, then
  the lookup at the head of \<open>__actions\<close>, among the actions first, then among the child
  workflows.
\<close>

definition start_node :: "engine \<Rightarrow> workflow \<Rightarrow> start_ref option \<Rightarrow> exn + node option" where
  "start_node eng w start_opt =
     (case (case start_opt of
              Some (Start_uuid u) \<Rightarrow> Inr u
            | Some (Start_str x) \<Rightarrow>
                (case uuid_of_string eng x of None \<Rightarrow> Inl ValueError | Some u \<Rightarrow> Inr u)
            | None \<Rightarrow> (case start w of None \<Rightarrow> Inl TypeError | Some u \<Rightarrow> Inr u)) of
        Inl e \<Rightarrow> Inl e
      | Inr u \<Rightarrow>
          Inr (case get_action_by_id w u of
                 Some a \<Rightarrow> Some a
               | None \<Rightarrow> get_child_workflow_by_id w u))"

text \<open>The state in which \<open>execute\<close> enters the node loop.\<close>

definition started :: "workflow \<Rightarrow> string \<Rightarrow> workflow_state \<Rightarrow> workflow_state" where
  "started w exec_id s =
     s\<lparr>execution_id := exec_id,
       trace := trace s @ [Log INFO ''Executing workflow'' [wf_id w],
                           Signal WorkflowExecutionStart (wf_id w) None]\<rparr>"

text \<open>
  The assignments \<^verbatim>\<open>self._accumulator[action.id] = ...\<close> of a run, in order: the id of
  each node whose step went on to the next pull, with the value the step handed on as
  \<^verbatim>\<open>last_result\<close>. The recursion is that of \<open>run\<close>.
\<close>

fun writes ::
  "nat \<Rightarrow> capabilities \<Rightarrow> engine \<Rightarrow> workflow \<Rightarrow> node option \<Rightarrow> argument list option
     \<Rightarrow> bool \<Rightarrow> workflow_state \<Rightarrow> (uuid \<times> pyval) list" where
  "writes fuel caps eng w None start_arguments resume s = []"
| "writes 0 caps eng w (Some action) start_arguments resume s = []"
| "writes (Suc fuel) caps eng w (Some action) start_arguments resume s =
     (case step caps eng w action start_arguments resume s of
        (Done r, s') \<Rightarrow> []
      | (Next next_executable start_arguments' last_result', s') \<Rightarrow>
          (n_id action, last_result') #
          writes fuel caps eng w next_executable start_arguments' resume s')"

text \<open>The same for a call of \<open>execute\<close>.\<close>

definition execute_writes ::
  "nat \<Rightarrow> capabilities \<Rightarrow> engine \<Rightarrow> workflow \<Rightarrow> string \<Rightarrow> start_ref option
     \<Rightarrow> argument list option \<Rightarrow> bool \<Rightarrow> workflow_state \<Rightarrow> (uuid \<times> pyval) list" where
  "execute_writes fuel caps eng w exec_id start_opt start_arguments resume s =
     (if is_valid w then
        (case start_node eng w start_opt of
           Inl e \<Rightarrow> []
         | Inr nd \<Rightarrow> writes fuel caps eng w nd start_arguments resume (started w exec_id s))
      else [])"

text \<open>
  What is done to a Workflow object between its creation and a run: calls of \<open>execute\<close>,
  \<open>pause\<close> and \<open>abort\<close>, in any number and order.
\<close>

datatype call =
    Execute nat string "start_ref option" "argument list option" bool
  | Pause
  | Abort

definition apply_call ::
  "capabilities \<Rightarrow> engine \<Rightarrow> workflow \<Rightarrow> workflow_state \<Rightarrow> call \<Rightarrow> workflow_state" where
  "apply_call caps eng w s c =
     (case c of
        Execute fuel exec_id start_opt start_arguments resume \<Rightarrow>
          snd (execute fuel caps eng w exec_id start_opt start_arguments resume s)
      | Pause \<Rightarrow> pause w s
      | Abort \<Rightarrow> abort_workflow w s)"

definition after_calls ::
  "capabilities \<Rightarrow> engine \<Rightarrow> workflow \<Rightarrow> workflow_state \<Rightarrow> call list \<Rightarrow> workflow_state" where
  "after_calls caps eng w s0 calls = foldl (apply_call caps eng w) s0 calls"

text \<open>The nodes of a workflow, and what every call keeps of an accumulator: its keys,
  the entries under keys that are not the id of a node, and the distinctness of the keys.\<close>

definition nodes :: "workflow \<Rightarrow> node set" where
  "nodes w = set (actions w) \<union> set (child_workflows w)"

definition keeps :: "workflow \<Rightarrow> accumulator \<Rightarrow> accumulator \<Rightarrow> bool" where
  "keeps w acc acc' =
     (fst ` set acc \<subseteq> fst ` set acc'
      \<and> (\<forall>k. k \<notin> n_id ` nodes w \<longrightarrow> map_of acc' k = map_of acc k)
      \<and> (distinct (map fst acc) \<longrightarrow> distinct (map fst acc')))"

section \<open>Properties of the condition tree evaluator\<close>

lemma example_validate_simps:
  "transform_validate example_caps example_transform PNone acc = Inl InvalidArgument"
  "transform_validate example_caps example_transform (PInt n) acc = Inr [(''value'', PInt n)]"
  "transform_validate example_caps example_transform (PStr x) acc = Inr [(''value'', PStr x)]"
  "condition_validate example_caps (example_condition neg ts) PNone acc = Inl InvalidArgument"
  "condition_validate example_caps (example_condition neg ts) (PInt n) acc = Inr [(''value'', PInt n)]"
  "condition_validate example_caps (example_condition neg ts) (PStr x) acc = Inr [(''value'', PStr x)]"
  by (simp_all add: transform_validate_def condition_validate_def update_arguments_with_data_def
        example_caps_def example_transform_def example_condition_def example_validate_def
       )

lemma example_execute_simps:
  "execute_transform example_caps t acc [(''value'', PInt n)] = Inr (PInt (n + 1))"
  "execute_transform example_caps t acc [(''value'', PStr x)] = Inl ExecutionError"
  "execute_condition example_caps c acc [(''value'', PInt n)] = Inr (0 < n)"
  "execute_condition example_caps c acc [(''value'', PStr x)] = Inl ExecutionError"
  by (simp_all add: example_caps_def example_value_def)

text \<open>
  C2. A ConditionalExpression with no conditions, no child expressions and
  \<open>is_negated\<close> false evaluates to \<open>True\<close> under each of the operators and, or, xor
  (and sends the ConditionalExpressionTrue signal).
\<close>

theorem empty_expression_true:
  "expression_execute caps (ConditionalExpression i op False [] []) data_in acc tr =
     (Inr True, tr @ [Signal ConditionalExpressionTrue i None])"
  by (cases op)
     (simp_all add: operator_lookup_def and_operator_def or_operator_def xor_operator_def
        finish_expression_def)

text \<open>
  C4. Once the transform chain of a Condition has produced its data: if argument
  validation raises InvalidArgument, or validation succeeds and the capability raises an
  ExecutionError, \<open>Condition.execute\<close> returns \<open>False\<close>, whatever the condition's
  \<open>is_negated\<close> flag; when validation and the capability both succeed, the capability's
  boolean is returned, inverted exactly when \<open>is_negated\<close> is set.
\<close>

theorem condition_fail_closed:
  assumes "execute_transforms caps (c_transforms c) data_in acc tr = (Inr data, tr1)"
  shows "(condition_validate caps c data acc = Inl InvalidArgument \<longrightarrow>
            fst (condition_execute caps c data_in acc tr) = Inr False)
       \<and> (condition_validate caps c data acc = Inr args \<longrightarrow>
             execute_condition caps c acc args = Inl ExecutionError \<longrightarrow>
               fst (condition_execute caps c data_in acc tr) = Inr False)
       \<and> (condition_validate caps c data acc = Inr args \<longrightarrow>
             execute_condition caps c acc args = Inr ret \<longrightarrow>
               fst (condition_execute caps c data_in acc tr) =
                 Inr (if c_is_negated c then \<not> ret else ret))"
  using assms by (simp add: condition_execute_def Let_def)

theorem condition_fail_closed_witness:
  "fst (condition_execute example_caps (example_condition True []) PNone [] []) = Inr False
   \<and> fst (condition_execute example_caps (example_condition True []) (PStr ''x'') [] []) = Inr False
   \<and> fst (condition_execute example_caps (example_condition True []) (PInt 5) [] []) = Inr False"
proof -
  have chain: "execute_transforms example_caps (c_transforms (example_condition True [])) d [] []
                 = (Inr d, [])" for d
    by (simp add: example_condition_def)
  have neg: "c_is_negated (example_condition True []) = True"
    by (simp add: example_condition_def)
  show ?thesis
    using condition_fail_closed [OF chain [of PNone]]
          condition_fail_closed [OF chain [of "PStr ''x''"],
            where args = "[(''value'', PStr ''x'')]"]
          condition_fail_closed [OF chain [of "PInt 5"],
            where args = "[(''value'', PInt 5)]" and ret = True]
    by (simp add: example_validate_simps example_execute_simps neg)
qed

lemma execute_transforms_append:
  "execute_transforms caps (ts @ us) x acc tr =
     (case execute_transforms caps ts x acc tr of
        (Inl e, tr') \<Rightarrow> (Inl e, tr')
      | (Inr y, tr') \<Rightarrow> execute_transforms caps us y acc tr')"
  by (induction ts arbitrary: x tr) (auto split: prod.splits sum.splits)

text \<open>
  C5. A Transform whose argument validation raises InvalidArgument, or whose capability
  raises an ExecutionError, returns its input unchanged. The chain of a Condition runs
  left to right: the last transform of a chain receives what the transforms before it
  produced, and the Condition validates and tests the output of its whole chain (an
  exception leaving the chain leaves the Condition).
\<close>

theorem transform_fail_open:
  "(transform_validate caps t x acc = Inl InvalidArgument \<longrightarrow>
      fst (transform_execute caps t x acc tr) = Inr x)
   \<and> (transform_validate caps t x acc = Inr args \<longrightarrow>
         execute_transform caps t acc args = Inl ExecutionError \<longrightarrow>
           fst (transform_execute caps t x acc tr) = Inr x)
   \<and> execute_transforms caps (ts @ [t]) x acc tr =
       (case execute_transforms caps ts x acc tr of
          (Inl e, tr') \<Rightarrow> (Inl e, tr')
        | (Inr y, tr') \<Rightarrow> transform_execute caps t y acc tr')
   \<and> fst (condition_execute caps c x acc tr) =
       (case execute_transforms caps (c_transforms c) x acc tr of
          (Inl e, tr') \<Rightarrow> Inl e
        | (Inr y, tr') \<Rightarrow>
            (case condition_validate caps c y acc of
               Inl e \<Rightarrow> if e = InvalidArgument then Inr False else Inl e
             | Inr bound \<Rightarrow>
                 (case execute_condition caps c acc bound of
                    Inl e \<Rightarrow> if e = ExecutionError then Inr False else Inl e
                  | Inr ret \<Rightarrow> Inr (if c_is_negated c then \<not> ret else ret))))"
proof (intro conjI)
  show "transform_validate caps t x acc = Inl InvalidArgument \<longrightarrow>
          fst (transform_execute caps t x acc tr) = Inr x"
    by (simp add: transform_execute_def)
  show "transform_validate caps t x acc = Inr args \<longrightarrow>
          execute_transform caps t acc args = Inl ExecutionError \<longrightarrow>
            fst (transform_execute caps t x acc tr) = Inr x"
    by (simp add: transform_execute_def)
  show "execute_transforms caps (ts @ [t]) x acc tr =
          (case execute_transforms caps ts x acc tr of
             (Inl e, tr') \<Rightarrow> (Inl e, tr')
           | (Inr y, tr') \<Rightarrow> transform_execute caps t y acc tr')"
    by (simp add: execute_transforms_append split: prod.splits sum.splits)
  show "fst (condition_execute caps c x acc tr) =
          (case execute_transforms caps (c_transforms c) x acc tr of
             (Inl e, tr') \<Rightarrow> Inl e
           | (Inr y, tr') \<Rightarrow>
               (case condition_validate caps c y acc of
                  Inl e \<Rightarrow> if e = InvalidArgument then Inr False else Inl e
                | Inr bound \<Rightarrow>
                    (case execute_condition caps c acc bound of
                       Inl e \<Rightarrow> if e = ExecutionError then Inr False else Inl e
                     | Inr ret \<Rightarrow> Inr (if c_is_negated c then \<not> ret else ret))))"
    by (simp add: condition_execute_def Let_def split: prod.splits sum.splits exn.splits)
qed

theorem transform_fail_open_witness:
  "fst (transform_execute example_caps example_transform PNone [] []) = Inr PNone
   \<and> fst (transform_execute example_caps example_transform (PStr ''x'') [] []) = Inr (PStr ''x'')
   \<and> fst (execute_transforms example_caps ([example_transform] @ [example_transform]) (PInt 1) [] [])
       = Inr (PInt 3)"
  using transform_fail_open [where caps = example_caps and t = example_transform and x = PNone
          and acc = "[]" and tr = "[]"]
        transform_fail_open [where caps = example_caps and t = example_transform
          and x = "PStr ''x''" and acc = "[]" and tr = "[]" and args = "[(''value'', PStr ''x'')]"]
        transform_fail_open [where caps = example_caps and t = example_transform
          and x = "PInt 1" and acc = "[]" and tr = "[]" and ts = "[example_transform]"]
  by (simp add: example_validate_simps example_execute_simps transform_execute_def)

lemma finish_expression_toggle:
  "fst (finish_expression i (\<not> neg) r) = map_sum id Not (fst (finish_expression i neg r))"
  by (cases r; cases "fst r") (auto simp: finish_expression_def Let_def split: sum.splits)

lemma finish_expression_result:
  "fst (finish_expression i neg r) = map_sum id (\<lambda>b. if neg then \<not> b else b) (fst r)"
  by (cases r; cases "fst r") (auto simp: finish_expression_def Let_def split: sum.splits)

text \<open>
  C6. Evaluating a tree with the root's \<open>is_negated\<close> toggled gives the negation of the
  tree's value (and the same exception, if one leaves the evaluation); the value of a tree
  is what its operator computes over the conditions and child expressions, inverted
  afterwards when \<open>is_negated\<close> is set.
\<close>

theorem negation_toggles_result:
  "fst (expression_execute caps (toggle_negation T) data_in acc tr) =
     map_sum id Not (fst (expression_execute caps T data_in acc tr))
   \<and> fst (expression_execute caps T data_in acc tr) =
       map_sum id (\<lambda>b. if is_negated T then \<not> b else b)
         (fst (operator_lookup (ce_operator T)
                 (map (\<lambda>c tr'. condition_execute caps c data_in acc tr') (conditions T))
                 (map (\<lambda>x tr'. expression_execute caps x data_in acc tr') (child_expressions T))
                 tr))"
proof (cases T)
  case (ConditionalExpression i op neg cs es)
  have "fst (expression_execute caps (toggle_negation T) data_in acc tr) =
          map_sum id Not (fst (expression_execute caps T data_in acc tr))"
    using ConditionalExpression by (simp add: toggle_negation_def finish_expression_toggle)
  moreover
  have "fst (expression_execute caps T data_in acc tr) =
          map_sum id (\<lambda>b. if is_negated T then \<not> b else b)
            (fst (operator_lookup (ce_operator T)
                    (map (\<lambda>c tr'. condition_execute caps c data_in acc tr') (conditions T))
                    (map (\<lambda>x tr'. expression_execute caps x data_in acc tr')
                       (child_expressions T))
                    tr))"
    using ConditionalExpression by (simp add: finish_expression_result)
  ultimately show ?thesis by (rule conjI)
qed

section \<open>Properties of the execution engine\<close>

text \<open>
  C7. \<open>execute\<close> on a workflow whose \<open>is_valid\<close> flag is false returns \<open>None\<close> for
  every amount of fuel, start, start arguments and resume flag; the only effect is one
  logged error. No signal is sent (so no WorkflowExecutionStart), no node is executed, and
  the flags, the accumulator, the execution id and the instance repository are unchanged.
\<close>

theorem invalid_workflow_refused:
  assumes "\<not> is_valid w"
  shows "execute fuel caps eng w exec_id start_opt start_arguments resume s =
           (Some (Inr PNone),
            s\<lparr>trace := trace s @
                 [Log ERROR ''Workflow is invalid, yet executor attempted to execute.'' []]\<rparr>)"
  using assms by (simp add: execute_def)

theorem invalid_workflow_refused_witness:
  "execute 5 example_caps example_engine (example_workflow\<lparr>is_valid := False\<rparr>) ''run-1''
     None None False (init_on_load example_workflow)
   = (Some (Inr PNone),
      (init_on_load example_workflow)
        \<lparr>trace := [Log ERROR ''Workflow is invalid, yet executor attempted to execute.'' []]\<rparr>)"
  using invalid_workflow_refused [of "example_workflow\<lparr>is_valid := False\<rparr>" 5 example_caps
          example_engine "''run-1''" None None False "init_on_load example_workflow"]
  by (simp add: init_on_load_def)

lemma example_workflow_simps:
  "is_valid example_workflow"
  "wf_id example_workflow = 100"
  "start example_workflow = Some 1"
  "get_action_by_id example_workflow 1 = Some (example_node 1)"
  "get_action_by_id example_workflow 3 = Some (example_node 3)"
  "n_id (example_node i) = i"
  "n_device_id (example_node i) = None"
  by (simp_all add: get_action_by_id_def example_workflow_def example_node_def)

text \<open>
  C1, as the code has it. At a node boundary with a flag set the run ends there, for
  any fuel left: the paused flag is tested first. If it is set, it is cleared,
  WorkflowPaused is sent and \<open>Paused\<close> is yielded, and the abort flag keeps its value; only
  if it is not set and the abort flag is, that one is cleared, WorkflowAborted is sent and
  \<open>Aborted\<close> is yielded. Exactly one of the two signals is sent, and nothing else changes
  but the executing action and the trace.
\<close>

theorem node_boundary_flags:
  assumes "is_paused s \<or> abort s"
  shows "run (Suc fuel) caps eng w (Some action) start_arguments resume last_result s =
           (Some (Inr (PStr (if is_paused s then ''Paused'' else ''Aborted''))),
            s\<lparr>is_paused := False, abort := is_paused s \<and> abort s,
              executing_action := Some (n_id action),
              trace := trace s @
                [Log DEBUG ''Executing action of workflow'' [n_id action, wf_id w],
                 Signal (if is_paused s then WorkflowPaused else WorkflowAborted) (wf_id w) None,
                 if is_paused s then Log DEBUG ''Paused workflow'' [wf_id w]
                 else Log INFO ''Aborted workflow'' [wf_id w]]\<rparr>)"
  using assms by (cases s) (auto simp: step_def)

theorem node_boundary_flags_witness:
  "run (Suc 0) example_caps example_engine example_workflow (Some (example_node 3)) None False
     (PInt 1) ((init_on_load example_workflow)\<lparr>abort := True\<rparr>)
   = (Some (Inr (PStr ''Aborted'')),
      (init_on_load example_workflow)
        \<lparr>executing_action := Some 3,
          trace := [Log DEBUG ''Executing action of workflow'' [3, 100],
                    Signal WorkflowAborted 100 None,
                    Log INFO ''Aborted workflow'' [100]]\<rparr>)"
  using node_boundary_flags [of "(init_on_load example_workflow)\<lparr>abort := True\<rparr>" 0
          example_caps example_engine example_workflow "example_node 3" None False "PInt 1"]
  by (simp add: example_workflow_simps init_on_load_def)

text \<open>
  With both flags set when the first node is reached, \<open>execute\<close> returns \<open>Paused\<close>, not
  \<open>Aborted\<close>: the signal sent is WorkflowPaused and the abort flag is still set afterwards.
\<close>

theorem abort_first_counterexample:
  "execute 1 example_caps example_engine example_workflow ''run-1'' None None False
     ((init_on_load example_workflow)\<lparr>is_paused := True, abort := True\<rparr>)
   = (Some (Inr (PStr ''Paused'')),
      (init_on_load example_workflow)
        \<lparr>is_paused := False, abort := True, execution_id := ''run-1'',
          executing_action := Some 1,
          trace := [Log INFO ''Executing workflow'' [100],
                    Signal WorkflowExecutionStart 100 None,
                    Log DEBUG ''Executing action of workflow'' [1, 100],
                    Signal WorkflowPaused 100 None,
                    Log DEBUG ''Paused workflow'' [100]]\<rparr>)"
  by (simp add: execute_def example_workflow_simps step_def init_on_load_def)



lemma get_branch_sorted:
  "get_branch caps w a out acc tr =
     first_branch caps w (sort_key priority (get_branches_by_action_id w (n_id a))) out acc tr"
  by (simp add: get_branch_def get_branches_by_action_id_def)




lemma example_branches_1:
  "sort_key priority (get_branches_by_action_id example_workflow 1) =
     [example_branch 15 1 2 0 (Some (ConditionalExpression 25 And True [] []))] @
     example_branch 13 1 3 1 (Some (ConditionalExpression 23 And False [] [])) #
     [example_branch 14 1 4 3 None, example_branch 11 1 2 5 None]"
  by (simp add: get_branches_by_action_id_def example_workflow_def example_branch_def)

lemma example_branches_3:
  "sort_key priority (get_branches_by_action_id example_workflow 3) =
     [example_branch 16 3 1 2 (Some (ConditionalExpression 26 Or True [] []))]"
  by (simp add: get_branches_by_action_id_def example_workflow_def example_branch_def)

lemma example_branch_conditions:
  "branch_condition caps (example_branch 15 1 2 0 (Some (ConditionalExpression 25 And True [] [])))
     out acc tr = (Inr False, tr @ [Signal ConditionalExpressionFalse 25 None])"
  "branch_condition caps (example_branch 13 1 3 1 (Some (ConditionalExpression 23 And False [] [])))
     out acc tr = (Inr True, tr @ [Signal ConditionalExpressionTrue 23 None])"
  "branch_condition caps (example_branch 16 3 1 2 (Some (ConditionalExpression 26 Or True [] [])))
     out acc tr = (Inr False, tr @ [Signal ConditionalExpressionFalse 26 None])"
  by (simp_all add: branch_condition_def example_branch_def operator_lookup_def and_operator_def
        or_operator_def finish_expression_def)


subsection \<open>The accumulator and its snapshot\<close>

lemma execute_valid:
  "is_valid w \<Longrightarrow>
     execute fuel caps eng w exec_id start_opt sa resume s =
       (case start_node eng w start_opt of
          Inl e \<Rightarrow> (Some (Inl e), started w exec_id s)
        | Inr nd \<Rightarrow> run fuel caps eng w nd sa resume PNone (started w exec_id s))"
  by (simp add: execute_def start_node_def started_def Let_def split: sum.splits)

lemma find_in_set: "find P xs = Some x \<Longrightarrow> x \<in> set xs"
  by (induction xs) (auto split: if_splits)

lemma start_node_in_nodes: "start_node eng w start_opt = Inr (Some n) \<Longrightarrow> n \<in> nodes w"
  by (auto simp: start_node_def nodes_def get_action_by_id_def get_child_workflow_by_id_def
           split: sum.splits option.splits dest: find_in_set)

lemma fold_update_keys:
  "fst ` set (foldl (\<lambda>acc (k, v). AList.update k v acc) acc0 ws) = fst ` set acc0 \<union> fst ` set ws"
proof (induction ws arbitrary: acc0)
  case Nil
  then show ?case by simp
next
  case (Cons p ws)
  obtain k v where p: "p = (k, v)" by (cases p)
  have "fst ` set (foldl (\<lambda>acc (k, v). AList.update k v acc) (AList.update k v acc0) ws) =
          fst ` set (AList.update k v acc0) \<union> fst ` set ws"
    by (rule Cons.IH)
  then show ?case using p by (simp add: dom_update)
qed

lemma fold_update_distinct:
  "distinct (map fst acc0) \<Longrightarrow>
     distinct (map fst (foldl (\<lambda>acc (k, v). AList.update k v acc) acc0 ws))"
proof (induction ws arbitrary: acc0)
  case Nil
  then show ?case by simp
next
  case (Cons p ws)
  obtain k v where p: "p = (k, v)" by (cases p)
  have "distinct (map fst (AList.update k v acc0))"
    using Cons.prems by (rule distinct_update)
  from Cons.IH [OF this] show ?case using p by simp
qed

lemma fold_update_values:
  "map_of (foldl (\<lambda>acc (k, v). AList.update k v acc) acc0 ws) x =
     (case map_of (rev ws) x of Some v \<Rightarrow> Some v | None \<Rightarrow> map_of acc0 x)"
proof (induction ws arbitrary: acc0)
  case Nil
  then show ?case by simp
next
  case (Cons p ws)
  obtain k v where p: "p = (k, v)" by (cases p)
  have "map_of (foldl (\<lambda>acc (k, v). AList.update k v acc) (AList.update k v acc0) ws) x =
          (case map_of (rev ws) x of Some v \<Rightarrow> Some v | None \<Rightarrow> map_of (AList.update k v acc0) x)"
    by (rule Cons.IH)
  then show ?case
    using p by (simp add: update_conv' map_add_def split: option.splits)
qed

lemma seed_fold_keys:
  "fst ` set (foldl (\<lambda>d b. AList.update (b_id b) (PInt 0) d) d0 bs) =
     fst ` set d0 \<union> b_id ` set bs"
  by (induction bs arbitrary: d0) (auto simp: dom_update)

lemma seed_fold_distinct:
  "distinct (map fst d0) \<Longrightarrow>
     distinct (map fst (foldl (\<lambda>d b. AList.update (b_id b) (PInt 0) d) d0 bs))"
  by (induction bs arbitrary: d0) (simp_all add: distinct_update)

lemma seed_fold_values:
  "map_of (foldl (\<lambda>d b. AList.update (b_id b) (PInt 0) d) d0 bs) k =
     (if k \<in> b_id ` set bs then Some (PInt 0) else map_of d0 k)"
  by (induction bs arbitrary: d0) (auto simp: update_conv')

lemma seed_accumulator_keys: "fst ` set (seed_accumulator bs) = b_id ` set bs"
  by (simp add: seed_accumulator_def seed_fold_keys)

lemma seed_accumulator_distinct: "distinct (map fst (seed_accumulator bs))"
  by (simp add: seed_accumulator_def seed_fold_distinct)

lemma seed_accumulator_values:
  "map_of (seed_accumulator bs) k = (if k \<in> b_id ` set bs then Some (PInt 0) else None)"
  by (simp add: seed_accumulator_def seed_fold_values)

lemma snapshot_fold_keys:
  "fst ` set (foldl (\<lambda>d (key, v). AList.update (str key) v d) d0 acc) =
     fst ` set d0 \<union> str ` fst ` set acc"
proof (induction acc arbitrary: d0)
  case Nil
  then show ?case by simp
next
  case (Cons p acc)
  obtain key v where p: "p = (key, v)" by (cases p)
  have "fst ` set (foldl (\<lambda>d (key, v). AList.update (str key) v d)
                     (AList.update (str key) v d0) acc) =
          fst ` set (AList.update (str key) v d0) \<union> str ` fst ` set acc"
    by (rule Cons.IH)
  then show ?case using p by (simp add: dom_update)
qed

lemma snapshot_keys: "fst ` set (snapshot str acc) = str ` fst ` set acc"
  by (simp add: snapshot_def snapshot_fold_keys)

lemma snapshot_fold_values:
  "inj_on str (insert k (fst ` set acc)) \<Longrightarrow> distinct (map fst acc) \<Longrightarrow>
     map_of (foldl (\<lambda>d (key, v). AList.update (str key) v d) d0 acc) (str k) =
       (case map_of acc k of Some v \<Rightarrow> Some v | None \<Rightarrow> map_of d0 (str k))"
proof (induction acc arbitrary: d0)
  case Nil
  then show ?case by simp
next
  case (Cons p acc)
  obtain key v where p: "p = (key, v)" by (cases p)
  have inj: "inj_on str (insert k (fst ` set acc))"
    using Cons.prems(1) by (rule inj_on_subset) auto
  have dist: "distinct (map fst acc)" and fresh: "key \<notin> fst ` set acc"
    using Cons.prems(2) p by auto
  have eq: "str key = str k \<longleftrightarrow> key = k"
    using Cons.prems(1) p by (auto simp: inj_on_def)
  have none: "key = k \<Longrightarrow> map_of acc k = None"
    using fresh by (simp add: map_of_eq_None_iff)
  show ?case
    using Cons.IH [OF inj dist, of "AList.update (str key) v d0"] p eq none
    by (auto simp: update_conv' split: option.splits)
qed

lemma snapshot_values:
  "inj_on str (insert k (fst ` set acc)) \<Longrightarrow> distinct (map fst acc) \<Longrightarrow>
     map_of (snapshot str acc) (str k) = map_of acc k"
  by (simp add: snapshot_def snapshot_fold_values split: option.splits)


lemma controls_accumulator:
  "accumulator (foldl (apply_control w) s cs) = accumulator s"
  by (induction cs arbitrary: s)
     (simp_all add: apply_control_def pause_def abort_workflow_def split: control.splits)

lemma controls_not_completed:
  "trace s \<noteq> [] \<Longrightarrow> \<not> completed w s \<Longrightarrow> \<not> completed w (foldl (apply_control w) s cs)"
  by (induction cs arbitrary: s)
     (simp_all add: apply_control_def pause_def abort_workflow_def completed_def
        split: control.splits)

lemma controls_trace_nonempty:
  "trace s \<noteq> [] \<Longrightarrow> trace (foldl (apply_control w) s cs) \<noteq> []"
  by (induction cs arbitrary: s)
     (simp_all add: apply_control_def pause_def abort_workflow_def split: control.splits)

lemma actions_next_accumulator:
  "accumulator (snd (actions_next caps w a out s)) = accumulator s"
proof (cases "get_branch caps w a out (accumulator s) (trace s)")
  case (Pair r tr)
  then show ?thesis
    by (cases r) (simp_all add: actions_next_def split: prod.splits)
qed



lemma actions_next_node:
  assumes "actions_next caps w a out s = (Inr (Some n), s')"
  shows "n \<in> nodes w"
proof (cases "get_branch caps w a out (accumulator s) (trace s)")
  case (Pair r tr)
  show ?thesis
  proof (cases r)
    case (Inl e)
    with Pair assms show ?thesis by (simp add: actions_next_def)
  next
    case (Inr d)
    obtain next_id next_type where d: "d = (next_id, next_type)" by (cases d)
    show ?thesis
    proof (cases next_id)
      case None
      with Pair Inr d assms show ?thesis by (simp add: actions_next_def)
    next
      case (Some i)
      with Pair Inr d assms
      have "(if next_type = Some ''action'' then get_action_by_id w i
             else get_child_workflow_by_id w i) = Some n"
        by (simp add: actions_next_def)
      then show ?thesis
        by (auto simp: nodes_def get_action_by_id_def get_child_workflow_by_id_def
                 split: if_splits dest: find_in_set)
    qed
  qed
qed

lemma step_shape:
  assumes "step caps eng w a sa resume s = (res, s')"
  shows "(\<exists>y. res = Done y
            \<and> (\<forall>x. y = Inr x \<longrightarrow> \<not> completed w s')
            \<and> (accumulator s' = accumulator s
                \<or> (\<exists>v. accumulator s' = AList.update (n_id a) v (accumulator s))))
       \<or> (\<exists>repo nr out nx sa'.
             res = Next nx sa' (ar_result out)
           \<and> instance_repo s = Some repo
           \<and> node_execute eng a (accumulator s) sa resume
               (case fst (setup_app_instance repo a) of
                  None \<Rightarrow> None
                | Some d \<Rightarrow> if d \<noteq> 0 then Some d else None) = Inr nr
           \<and> get_output nr = Some out
           \<and> accumulator s' = AList.update (n_id a) (ar_result out) (accumulator s)
           \<and> (\<forall>n. nx = Some n \<longrightarrow> n \<in> nodes w))"
proof (cases "is_paused s")
  case True
  with assms show ?thesis by (auto simp: step_def completed_def)
next
  case not_paused: False
  show ?thesis
  proof (cases "abort s")
    case True
    with not_paused assms show ?thesis by (auto simp: step_def completed_def)
  next
    case not_aborted: False
    show ?thesis
    proof (cases "instance_repo s")
      case None
      with not_paused not_aborted assms show ?thesis by (auto simp: step_def)
    next
      case (Some repo)
      obtain device_id repo' where acquired: "setup_app_instance repo a = (device_id, repo')"
        by (cases "setup_app_instance repo a")
      define inst where
        "inst = (case device_id of None \<Rightarrow> None | Some d \<Rightarrow> if d \<noteq> 0 then Some d else None)"
      define s2 where
        "s2 = s\<lparr>executing_action := Some (n_id a),
                trace := trace s @ [Log DEBUG ''Executing action of workflow'' [n_id a, wf_id w]],
                instance_repo := Some repo'\<rparr>"
      show ?thesis
      proof (cases "node_execute eng a (accumulator s) sa resume inst")
        case (Inl e)
        with not_paused not_aborted Some acquired assms
        have "res = Done (Inl e)" and "accumulator s' = accumulator s"
          by (auto simp: step_def inst_def)
        then show ?thesis by auto
      next
        case (Inr nr)
        define s3 where "s3 = foldl (apply_control w) s2 (controls nr)"
        have s3_acc: "accumulator s3 = accumulator s"
          by (simp add: s3_def s2_def controls_accumulator)
        have s3_open: "\<not> completed w s3"
          unfolding s3_def
          by (rule controls_not_completed) (simp_all add: s2_def completed_def)
        show ?thesis
        proof (cases "case returned nr of None \<Rightarrow> False | Some res \<Rightarrow> ar_status res = ''trigger''")
          case True
          with not_paused not_aborted Some acquired Inr assms
          have "res = Done (Inr (PStr ''Triggered''))" and "s' = s3"
            by (auto simp: step_def inst_def s3_def s2_def)
          with s3_open s3_acc show ?thesis by auto
        next
          case no_trigger: False
          show ?thesis
          proof (cases "get_output nr")
            case None
            with not_paused not_aborted Some acquired Inr no_trigger assms
            have "res = Done (Inl AttributeError)" and "s' = s3"
              by (auto simp: step_def inst_def s3_def s2_def)
            with s3_acc show ?thesis by auto
          next
            case out: (Some out)
            define s4 where
              "s4 = s3\<lparr>accumulator := AList.update (n_id a) (ar_result out) (accumulator s3)\<rparr>"
            obtain r s5 where nxt: "actions_next caps w a out s4 = (r, s5)"
              by (cases "actions_next caps w a out s4")
            have s5_acc: "accumulator s5 = AList.update (n_id a) (ar_result out) (accumulator s)"
              using actions_next_accumulator [of caps w a out s4] nxt
              by (simp add: s4_def s3_acc)
            have eq: "step caps eng w a sa resume s =
                    (case r of Inl e \<Rightarrow> (Done (Inl e), s5)
                             | Inr nx \<Rightarrow> (Next nx (case sa of None \<Rightarrow> None
                                   | Some args \<Rightarrow> if args \<noteq> [] then None else Some args)
                                   (ar_result out), s5))"
              using not_paused not_aborted Some acquired Inr no_trigger out nxt
              by (simp add: step_def inst_def s4_def s3_def s2_def)
            show ?thesis
            proof (cases r)
              case (Inl e)
              with eq assms have "res = Done (Inl e)" and "s' = s5" by simp_all
              with s5_acc show ?thesis by auto
            next
              case r: (Inr nx)
              with eq assms have res: "res = Next nx (case sa of None \<Rightarrow> None
                                   | Some args \<Rightarrow> if args \<noteq> [] then None else Some args)
                                   (ar_result out)" and s': "s' = s5" by simp_all
              have mem: "\<forall>n. nx = Some n \<longrightarrow> n \<in> nodes w"
                using actions_next_node [of caps w a out s4 _ s5] nxt r by auto
              have ne: "node_execute eng a (accumulator s) sa resume
                          (case fst (setup_app_instance repo a) of
                             None \<Rightarrow> None
                           | Some d \<Rightarrow> if d \<noteq> 0 then Some d else None) = Inr nr"
                using Inr acquired by (simp add: inst_def)
              show ?thesis
                using res s' s5_acc Some ne out mem by blast
            qed
          qed
        qed
      qed
    qed
  qed
qed

lemma keeps_refl: "keeps w acc acc"
  by (simp add: keeps_def)

lemma keeps_trans: "keeps w acc acc' \<Longrightarrow> keeps w acc' acc'' \<Longrightarrow> keeps w acc acc''"
  unfolding keeps_def by (intro conjI) (blast, simp, simp)

lemma keeps_update: "a \<in> nodes w \<Longrightarrow> keeps w acc (AList.update (n_id a) v acc)"
  unfolding keeps_def
  by (intro conjI) (auto simp: dom_update update_conv' distinct_update)

lemma step_Next:
  assumes "step caps eng w a sa resume s = (Next nx sa' v, s')"
  shows "\<exists>repo nr out.
           instance_repo s = Some repo
         \<and> node_execute eng a (accumulator s) sa resume
             (case fst (setup_app_instance repo a) of
                None \<Rightarrow> None
              | Some d \<Rightarrow> if d \<noteq> 0 then Some d else None) = Inr nr
         \<and> get_output nr = Some out
         \<and> v = ar_result out
         \<and> accumulator s' = AList.update (n_id a) (ar_result out) (accumulator s)"
    and "\<forall>n. nx = Some n \<longrightarrow> n \<in> nodes w"
  using step_shape [OF assms] by auto

lemma step_Done_open:
  assumes "step caps eng w a sa resume s = (Done (Inr x), s')"
  shows "\<not> completed w s'"
  using step_shape [OF assms] by auto

lemma step_keeps:
  assumes "step caps eng w a sa resume s = (res, s')" and "a \<in> nodes w"
  shows "keeps w (accumulator s) (accumulator s')"
proof -
  from step_shape [OF assms(1)]
  have "accumulator s' = accumulator s
        \<or> (\<exists>v. accumulator s' = AList.update (n_id a) v (accumulator s))"
    by auto
  then show ?thesis
    using keeps_refl [of w "accumulator s"]
          keeps_update [OF assms(2), where acc = "accumulator s"]
    by auto
qed

lemma shutdown_Inr:
  assumes "shutdown eng w s = Inr s'"
  shows "accumulator s' = accumulator s"
    and "trace s' = trace s @
           [Signal WorkflowShutdown (wf_id w) (Some (snapshot (str_of_uuid eng) (accumulator s))),
            Log INFO ''Workflow completed'' [wf_id w]]"
  using assms by (auto simp: shutdown_def split: option.splits)

lemma run_completed:
  assumes "run fuel caps eng w nd sa resume last_result s = (Some (Inr r), s')"
      and "completed w s'"
  shows "\<exists>s''. shutdown eng w s'' = Inr s'
           \<and> accumulator s'' =
               foldl (\<lambda>acc (k, v). AList.update k v acc) (accumulator s)
                 (writes fuel caps eng w nd sa resume s)"
  using assms
proof (induction fuel caps eng w nd sa resume last_result s rule: run.induct)
  case (1 fuel caps eng w sa resume last_result s)
  then have "shutdown eng w s = Inr s'"
    by (cases "shutdown eng w s") simp_all
  then show ?case by auto
next
  case (2 caps eng w action sa resume last_result s)
  then show ?case by simp
next
  case (3 fuel caps eng w action sa resume last_result s)
  obtain res s1 where st: "step caps eng w action sa resume s = (res, s1)"
    by (cases "step caps eng w action sa resume s")
  show ?case
  proof (cases res)
    case (Done x)
    with st "3.prems" have x: "x = Inr r" and s1: "s1 = s'" by simp_all
    from step_Done_open [of caps eng w action sa resume s r s1] st Done x
    have "\<not> completed w s1" by simp
    with s1 "3.prems"(2) show ?thesis by simp
  next
    case (Next nx sa' v)
    with st "3.prems" have ran: "run fuel caps eng w nx sa' resume v s1 = (Some (Inr r), s')"
      by simp
    from step_Next(1) [of caps eng w action sa resume s nx sa' v s1] st Next
    have acc1: "accumulator s1 = AList.update (n_id action) v (accumulator s)"
      by auto
    from "3.IH" [OF st [symmetric] Next ran "3.prems"(2)]
    obtain s'' where sh: "shutdown eng w s'' = Inr s'"
      and acc: "accumulator s'' =
                  foldl (\<lambda>acc (k, v). AList.update k v acc) (accumulator s1)
                    (writes fuel caps eng w nx sa' resume s1)"
      by blast
    have "writes (Suc fuel) caps eng w (Some action) sa resume s =
            (n_id action, v) # writes fuel caps eng w nx sa' resume s1"
      using st Next by simp
    with acc acc1 sh show ?thesis by auto
  qed
qed

lemma writes_in_nodes:
  assumes "\<forall>n. nd = Some n \<longrightarrow> n \<in> nodes w"
  shows "fst ` set (writes fuel caps eng w nd sa resume s) \<subseteq> n_id ` nodes w"
  using assms
proof (induction fuel caps eng w nd sa resume s rule: writes.induct)
  case (1 fuel caps eng w sa resume s)
  then show ?case by simp
next
  case (2 caps eng w action sa resume s)
  then show ?case by simp
next
  case (3 fuel caps eng w action sa resume s)
  obtain res s1 where st: "step caps eng w action sa resume s = (res, s1)"
    by (cases "step caps eng w action sa resume s")
  show ?case
  proof (cases res)
    case (Done x)
    with st show ?thesis by simp
  next
    case (Next nx sa' v)
    have mem: "\<forall>n. nx = Some n \<longrightarrow> n \<in> nodes w"
      using step_Next(2) [of caps eng w action sa resume s nx sa' v s1] st Next by simp
    have "fst ` set (writes fuel caps eng w nx sa' resume s1) \<subseteq> n_id ` nodes w"
      using "3.IH" [OF st [symmetric] Next mem] .
    moreover have "action \<in> nodes w" using "3.prems" by simp
    ultimately show ?thesis using st Next by auto
  qed
qed

lemma run_keeps:
  assumes "run fuel caps eng w nd sa resume last_result s = (res, s')"
      and "\<forall>n. nd = Some n \<longrightarrow> n \<in> nodes w"
  shows "keeps w (accumulator s) (accumulator s')"
  using assms
proof (induction fuel caps eng w nd sa resume last_result s rule: run.induct)
  case (1 fuel caps eng w sa resume last_result s)
  show ?case
  proof (cases "shutdown eng w s")
    case (Inl e)
    with "1.prems" show ?thesis by (simp add: keeps_refl)
  next
    case (Inr s2)
    with "1.prems" have "s' = s2" by simp
    with shutdown_Inr(1) [OF Inr] show ?thesis by (simp add: keeps_refl)
  qed
next
  case (2 caps eng w action sa resume last_result s)
  then show ?case by (simp add: keeps_refl)
next
  case (3 fuel caps eng w action sa resume last_result s)
  obtain r1 s1 where st: "step caps eng w action sa resume s = (r1, s1)"
    by (cases "step caps eng w action sa resume s")
  have here: "action \<in> nodes w" using "3.prems"(2) by simp
  have k1: "keeps w (accumulator s) (accumulator s1)"
    using step_keeps [OF st here] .
  show ?case
  proof (cases r1)
    case (Done x)
    with st "3.prems"(1) have "s' = s1" by simp
    with k1 show ?thesis by simp
  next
    case (Next nx sa' v)
    with st "3.prems"(1) have ran: "run fuel caps eng w nx sa' resume v s1 = (res, s')"
      by simp
    have mem: "\<forall>n. nx = Some n \<longrightarrow> n \<in> nodes w"
      using step_Next(2) [of caps eng w action sa resume s nx sa' v s1] st Next by simp
    have "keeps w (accumulator s1) (accumulator s')"
      using "3.IH" [OF st [symmetric] Next ran mem] .
    with k1 show ?thesis by (rule keeps_trans)
  qed
qed

lemma execute_keeps:
  "keeps w (accumulator s)
     (accumulator (snd (execute fuel caps eng w exec_id start_opt sa resume s)))"
proof (cases "is_valid w")
  case False
  then show ?thesis by (simp add: execute_def keeps_refl)
next
  case True
  show ?thesis
  proof (cases "start_node eng w start_opt")
    case (Inl e)
    with True show ?thesis by (simp add: execute_valid started_def keeps_refl)
  next
    case (Inr nd)
    obtain res s' where ran:
      "run fuel caps eng w nd sa resume PNone (started w exec_id s) = (res, s')"
      by (cases "run fuel caps eng w nd sa resume PNone (started w exec_id s)")
    have mem: "\<forall>n. nd = Some n \<longrightarrow> n \<in> nodes w"
      using start_node_in_nodes [of eng w start_opt] Inr by simp
    have "keeps w (accumulator (started w exec_id s)) (accumulator s')"
      using run_keeps [OF ran mem] .
    with True Inr ran show ?thesis by (simp add: execute_valid started_def)
  qed
qed

lemma after_calls_keeps:
  "keeps w (accumulator s0) (accumulator (after_calls caps eng w s0 calls))"
  unfolding after_calls_def
proof (induction calls arbitrary: s0)
  case Nil
  then show ?case by (simp add: keeps_refl)
next
  case (Cons c calls)
  have "keeps w (accumulator s0) (accumulator (apply_call caps eng w s0 c))"
    by (cases c)
       (simp_all add: apply_call_def execute_keeps pause_def abort_workflow_def keeps_refl)
  moreover
  have "keeps w (accumulator (apply_call caps eng w s0 c))
          (accumulator (foldl (apply_call caps eng w) (apply_call caps eng w s0 c) calls))"
    by (rule Cons.IH)
  ultimately show ?case by (simp add: keeps_trans)
qed

lemma execute_writes_in_nodes:
  "fst ` set (execute_writes fuel caps eng w exec_id start_opt sa resume s) \<subseteq> n_id ` nodes w"
proof (cases "is_valid w")
  case False
  then show ?thesis by (simp add: execute_writes_def)
next
  case True
  show ?thesis
  proof (cases "start_node eng w start_opt")
    case (Inl e)
    with True show ?thesis by (simp add: execute_writes_def)
  next
    case (Inr nd)
    have "\<forall>n. nd = Some n \<longrightarrow> n \<in> nodes w"
      using start_node_in_nodes [of eng w start_opt] Inr by simp
    from writes_in_nodes [OF this] True Inr show ?thesis
      by (simp add: execute_writes_def)
  qed
qed

lemma execute_completed:
  assumes ran: "execute fuel caps eng w exec_id start_opt sa resume s = (Some (Inr r), s')"
      and finished: "completed w s'"
  shows "\<exists>s''. shutdown eng w s'' = Inr s'
           \<and> accumulator s'' =
               foldl (\<lambda>acc (k, v). AList.update k v acc) (accumulator s)
                 (execute_writes fuel caps eng w exec_id start_opt sa resume s)"
proof (cases "is_valid w")
  case False
  with ran have "s' = s\<lparr>trace := trace s @
        [Log ERROR ''Workflow is invalid, yet executor attempted to execute.'' []]\<rparr>"
    by (simp add: execute_def)
  with finished show ?thesis by (simp add: completed_def)
next
  case True
  show ?thesis
  proof (cases "start_node eng w start_opt")
    case (Inl e)
    with True ran show ?thesis by (simp add: execute_valid)
  next
    case (Inr nd)
    with True ran
    have "run fuel caps eng w nd sa resume PNone (started w exec_id s) = (Some (Inr r), s')"
      by (simp add: execute_valid)
    from run_completed [OF this finished] True Inr show ?thesis
      by (simp add: execute_writes_def started_def)
  qed
qed

text \<open>
  C10. The accumulator that \<open>__init__\<close> and \<open>init_on_load\<close> leave has exactly one
  entry per branch id, each with the value 0, and no call re-seeds it: at the start of a
  run, whatever calls of \<open>execute\<close>, \<open>pause\<close> and \<open>abort\<close> came before, it has an entry
  for every branch, still 0 when the branch's id is not the id of a node. When the run
  completes, the final accumulator is the one the run started from with the run's
  assignments applied in order, each of them the result of the node's output under the
  node's id; the trace ends with the WorkflowShutdown signal carrying the string-keyed
  snapshot of that accumulator and the closing log line. The snapshot has a key for every
  branch id and every executed node's id; when \<open>str\<close> is injective on the keys, the entry
  under a key of the accumulator is the last result assigned under it in this run, or else
  the entry the run started with, and the entry of a branch whose id is not the id of a node
  is 0. (The node's own \<open>execute\<close> and the branch's, modelled from the specification,
  are taken not to write to the accumulator themselves.)
\<close>

theorem shutdown_snapshot_entries:
  assumes init: "s0 = init_on_load w \<or> s0 = workflow_init w"
      and start: "s = after_calls caps eng w s0 calls"
      and ran: "execute fuel caps eng w exec_id start_opt sa resume s = (Some (Inr r), s')"
      and finished: "completed w s'"
  shows "accumulator (init_on_load w) = seed_accumulator (branches w)
       \<and> accumulator (workflow_init w) = seed_accumulator (branches w)
       \<and> (\<forall>k. map_of (seed_accumulator (branches w)) k =
                 (if k \<in> b_id ` set (branches w) then Some (PInt 0) else None))
       \<and> (\<forall>b \<in> set (branches w).
             b_id b \<in> fst ` set (accumulator s)
             \<and> (b_id b \<notin> n_id ` nodes w \<longrightarrow> map_of (accumulator s) (b_id b) = Some (PInt 0)))
       \<and> accumulator s' =
           foldl (\<lambda>acc (k, v). AList.update k v acc) (accumulator s)
             (execute_writes fuel caps eng w exec_id start_opt sa resume s)
       \<and> (\<exists>tr. trace s' = tr @
              [Signal WorkflowShutdown (wf_id w)
                 (Some (snapshot (str_of_uuid eng) (accumulator s'))),
               Log INFO ''Workflow completed'' [wf_id w]])
       \<and> (\<forall>b \<in> set (branches w).
             str_of_uuid eng (b_id b) \<in> fst ` set (snapshot (str_of_uuid eng) (accumulator s')))
       \<and> (\<forall>k \<in> fst ` set (execute_writes fuel caps eng w exec_id start_opt sa resume s).
             str_of_uuid eng k \<in> fst ` set (snapshot (str_of_uuid eng) (accumulator s')))
       \<and> (inj_on (str_of_uuid eng) (fst ` set (accumulator s')) \<longrightarrow>
            (\<forall>k \<in> fst ` set (accumulator s').
               map_of (snapshot (str_of_uuid eng) (accumulator s')) (str_of_uuid eng k) =
                 (case map_of (rev (execute_writes fuel caps eng w exec_id start_opt sa resume s)) k of
                    Some v \<Rightarrow> Some v
                  | None \<Rightarrow> map_of (accumulator s) k))
            \<and> (\<forall>b \<in> set (branches w).
                 b_id b \<notin> n_id ` nodes w \<longrightarrow>
                   map_of (snapshot (str_of_uuid eng) (accumulator s')) (str_of_uuid eng (b_id b)) =
                     Some (PInt 0)))
       \<and> (step caps eng w a sa0 resume0 t = (Next nx sa1 v, t') \<longrightarrow>
            (\<exists>repo nr out.
               instance_repo t = Some repo
             \<and> node_execute eng a (accumulator t) sa0 resume0
                 (case fst (setup_app_instance repo a) of
                    None \<Rightarrow> None
                  | Some d \<Rightarrow> if d \<noteq> 0 then Some d else None) = Inr nr
             \<and> get_output nr = Some out
             \<and> v = ar_result out
             \<and> accumulator t' = AList.update (n_id a) (ar_result out) (accumulator t)))"
proof -
  let ?str = "str_of_uuid eng"
  let ?ws = "execute_writes fuel caps eng w exec_id start_opt sa resume s"
  let ?snap = "snapshot ?str (accumulator s')"
  have c1: "accumulator (init_on_load w) = seed_accumulator (branches w)"
    by (simp add: init_on_load_def)
  have c2: "accumulator (workflow_init w) = seed_accumulator (branches w)"
    by (simp add: workflow_init_def)
  have c3: "\<forall>k. map_of (seed_accumulator (branches w)) k =
                 (if k \<in> b_id ` set (branches w) then Some (PInt 0) else None)"
    by (simp add: seed_accumulator_values)
  have s0: "accumulator s0 = seed_accumulator (branches w)"
    using init c1 c2 by auto
  have kept: "keeps w (seed_accumulator (branches w)) (accumulator s)"
    using after_calls_keeps [of w s0 caps eng calls] by (simp add: start s0)
  have keys_s: "b_id ` set (branches w) \<subseteq> fst ` set (accumulator s)"
    using kept by (simp add: keeps_def seed_accumulator_keys)
  have dist_s: "distinct (map fst (accumulator s))"
    using kept by (simp add: keeps_def seed_accumulator_distinct)
  have vals_s: "\<forall>b \<in> set (branches w).
                  b_id b \<notin> n_id ` nodes w \<longrightarrow> map_of (accumulator s) (b_id b) = Some (PInt 0)"
    using kept by (simp add: keeps_def seed_accumulator_values)
  have c4: "\<forall>b \<in> set (branches w).
             b_id b \<in> fst ` set (accumulator s)
             \<and> (b_id b \<notin> n_id ` nodes w \<longrightarrow> map_of (accumulator s) (b_id b) = Some (PInt 0))"
    using keys_s vals_s by blast
  from execute_completed [OF ran finished]
  obtain s'' where sh: "shutdown eng w s'' = Inr s'"
    and acc'': "accumulator s'' =
                  foldl (\<lambda>acc (k, v). AList.update k v acc) (accumulator s) ?ws"
    by blast
  have acc: "accumulator s' = accumulator s''" and tr: "trace s' = trace s'' @
      [Signal WorkflowShutdown (wf_id w) (Some (snapshot ?str (accumulator s''))),
       Log INFO ''Workflow completed'' [wf_id w]]"
    using shutdown_Inr [OF sh] by simp_all
  have c5: "accumulator s' = foldl (\<lambda>acc (k, v). AList.update k v acc) (accumulator s) ?ws"
    using acc acc'' by simp
  have c6: "\<exists>tr. trace s' = tr @
              [Signal WorkflowShutdown (wf_id w) (Some ?snap),
               Log INFO ''Workflow completed'' [wf_id w]]"
    using tr acc by simp
  have keys': "fst ` set (accumulator s') = fst ` set (accumulator s) \<union> fst ` set ?ws"
    unfolding c5 by (rule fold_update_keys)
  have dist': "distinct (map fst (accumulator s'))"
    unfolding c5 using dist_s by (rule fold_update_distinct)
  have vals': "map_of (accumulator s') k =
                 (case map_of (rev ?ws) k of Some v \<Rightarrow> Some v | None \<Rightarrow> map_of (accumulator s) k)"
    for k
    unfolding c5 by (rule fold_update_values)
  have c7: "\<forall>b \<in> set (branches w). ?str (b_id b) \<in> fst ` set ?snap"
    unfolding snapshot_keys using keys_s keys' by blast
  have c8: "\<forall>k \<in> fst ` set ?ws. ?str k \<in> fst ` set ?snap"
    unfolding snapshot_keys using keys' by blast
  have c9: "inj_on ?str (fst ` set (accumulator s')) \<longrightarrow>
            (\<forall>k \<in> fst ` set (accumulator s').
               map_of ?snap (?str k) =
                 (case map_of (rev ?ws) k of Some v \<Rightarrow> Some v | None \<Rightarrow> map_of (accumulator s) k))
            \<and> (\<forall>b \<in> set (branches w).
                 b_id b \<notin> n_id ` nodes w \<longrightarrow> map_of ?snap (?str (b_id b)) = Some (PInt 0))"
  proof (intro impI conjI ballI)
    fix k
    assume inj: "inj_on ?str (fst ` set (accumulator s'))"
       and k: "k \<in> fst ` set (accumulator s')"
    then have "inj_on ?str (insert k (fst ` set (accumulator s')))"
      by (simp add: insert_absorb)
    from snapshot_values [OF this dist'] vals' [of k]
    show "map_of ?snap (?str k) =
            (case map_of (rev ?ws) k of Some v \<Rightarrow> Some v | None \<Rightarrow> map_of (accumulator s) k)"
      by simp
  next
    fix b
    assume inj: "inj_on ?str (fst ` set (accumulator s'))"
       and b: "b \<in> set (branches w)"
       and fresh: "b_id b \<notin> n_id ` nodes w"
    have mem: "b_id b \<in> fst ` set (accumulator s')"
      using b keys_s keys' by blast
    with inj have "inj_on ?str (insert (b_id b) (fst ` set (accumulator s')))"
      by (simp add: insert_absorb)
    from snapshot_values [OF this dist']
    have "map_of ?snap (?str (b_id b)) = map_of (accumulator s') (b_id b)" .
    also have "\<dots> = (case map_of (rev ?ws) (b_id b) of
                        Some v \<Rightarrow> Some v | None \<Rightarrow> map_of (accumulator s) (b_id b))"
      by (rule vals')
    also have "map_of (rev ?ws) (b_id b) = None"
    proof -
      have "b_id b \<notin> fst ` set ?ws"
        using fresh execute_writes_in_nodes [of fuel caps eng w exec_id start_opt sa resume s]
        by blast
      then show ?thesis by (simp add: map_of_eq_None_iff)
    qed
    finally show "map_of ?snap (?str (b_id b)) = Some (PInt 0)"
      using vals_s b fresh by simp
  qed
  have c10: "step caps eng w a sa0 resume0 t = (Next nx sa1 v, t') \<longrightarrow>
            (\<exists>repo nr out.
               instance_repo t = Some repo
             \<and> node_execute eng a (accumulator t) sa0 resume0
                 (case fst (setup_app_instance repo a) of
                    None \<Rightarrow> None
                  | Some d \<Rightarrow> if d \<noteq> 0 then Some d else None) = Inr nr
             \<and> get_output nr = Some out
             \<and> v = ar_result out
             \<and> accumulator t' = AList.update (n_id a) (ar_result out) (accumulator t))"
    using step_Next(1) [of caps eng w a sa0 resume0 t nx sa1 v t'] by blast
  from c1 c2 c3 c4 c5 c6 c7 c8 c9 c10 show ?thesis by (intro conjI)
qed

lemma example_get_branch_1:
  "get_branch caps example_workflow (example_node 1) out acc tr =
     (Inr (Some 3, Some ''action''),
      tr @ [Signal ConditionalExpressionFalse 25 None, Signal ConditionalExpressionTrue 23 None,
            Log DEBUG ''Branch with destination chosen by workflow'' [13, 3, 100]])"
  by (simp add: get_branch_sorted example_workflow_simps example_branches_1 branch_execute_def
        example_branch_conditions)
     (simp add: example_branch_def)

lemma example_get_branch_3:
  "get_branch caps example_workflow (example_node 3) out acc tr =
     (Inr (None, None), tr @ [Signal ConditionalExpressionFalse 26 None])"
  by (simp add: get_branch_sorted example_workflow_simps example_branches_3 branch_execute_def
        example_branch_conditions)

lemma example_seed:
  "seed_accumulator (branches example_workflow) =
     [(11, PInt 0), (12, PInt 0), (15, PInt 0), (13, PInt 0), (14, PInt 0), (16, PInt 0)]"
  by (simp add: seed_accumulator_def example_workflow_def example_branch_def)

lemma example_str:
  "str_of_uuid example_engine 11 = ''0b''"
  "str_of_uuid example_engine 12 = ''0c''"
  "str_of_uuid example_engine 15 = ''0f''"
  "str_of_uuid example_engine 13 = ''0d''"
  "str_of_uuid example_engine 14 = ''0e''"
  "str_of_uuid example_engine 16 = ''10''"
  "str_of_uuid example_engine 1 = ''01''"
  "str_of_uuid example_engine 3 = ''03''"
  by (simp_all add: example_engine_def hex_digit_def)

lemma example_step_1:
  "step example_caps example_engine example_workflow (example_node 1) None resume
     \<lparr>is_paused = False, abort = False, accumulator = acc, execution_id = e,
      instance_repo = Some [], executing_action = x, trace = tr\<rparr> =
   (Next (Some (example_node 3)) None (PInt 10),
     \<lparr>is_paused = False, abort = False, accumulator = AList.update 1 (PInt 10) acc,
      execution_id = e, instance_repo = Some [], executing_action = Some 1,
      trace = tr @ [Log DEBUG ''Executing action of workflow'' [1, 100],
                    Signal ConditionalExpressionFalse 25 None,
                    Signal ConditionalExpressionTrue 23 None,
                    Log DEBUG ''Branch with destination chosen by workflow'' [13, 3, 100]]\<rparr>)"
  by (simp add: step_def setup_app_instance_def example_workflow_simps actions_next_def
        example_get_branch_1 example_engine_def)

lemma example_step_3:
  "step example_caps example_engine example_workflow (example_node 3) None resume
     \<lparr>is_paused = False, abort = False, accumulator = acc, execution_id = e,
      instance_repo = Some [], executing_action = x, trace = tr\<rparr> =
   (Next None None (PInt 30),
     \<lparr>is_paused = False, abort = False, accumulator = AList.update 3 (PInt 30) acc,
      execution_id = e, instance_repo = Some [], executing_action = Some 3,
      trace = tr @ [Log DEBUG ''Executing action of workflow'' [3, 100],
                    Signal ConditionalExpressionFalse 26 None]\<rparr>)"
  by (simp add: step_def setup_app_instance_def example_workflow_simps actions_next_def
        example_get_branch_3 example_engine_def)

theorem shutdown_snapshot_entries_witness:
  "execute (Suc 0) example_caps example_engine example_workflow ''run-2'' (Some (Start_uuid 3))
     None False
     (after_calls example_caps example_engine example_workflow (init_on_load example_workflow)
        [Execute (Suc (Suc 0)) ''run-1'' None None False]) =
     (Some (Inr (PInt 30)),
      \<lparr>is_paused = False, abort = False,
       accumulator = [(11, PInt 0), (12, PInt 0), (15, PInt 0), (13, PInt 0), (14, PInt 0),
                      (16, PInt 0), (1, PInt 10), (3, PInt 30)],
       execution_id = ''run-2'', instance_repo = Some [], executing_action = Some 3,
       trace = [Log INFO ''Executing workflow'' [100],
                Signal WorkflowExecutionStart 100 None,
                Log DEBUG ''Executing action of workflow'' [1, 100],
                Signal ConditionalExpressionFalse 25 None,
                Signal ConditionalExpressionTrue 23 None,
                Log DEBUG ''Branch with destination chosen by workflow'' [13, 3, 100],
                Log DEBUG ''Executing action of workflow'' [3, 100],
                Signal ConditionalExpressionFalse 26 None,
                Signal WorkflowShutdown 100
                  (Some [(''0b'', PInt 0), (''0c'', PInt 0), (''0f'', PInt 0), (''0d'', PInt 0),
                         (''0e'', PInt 0), (''10'', PInt 0), (''01'', PInt 10), (''03'', PInt 30)]),
                Log INFO ''Workflow completed'' [100],
                Log INFO ''Executing workflow'' [100],
                Signal WorkflowExecutionStart 100 None,
                Log DEBUG ''Executing action of workflow'' [3, 100],
                Signal ConditionalExpressionFalse 26 None,
                Signal WorkflowShutdown 100
                  (Some [(''0b'', PInt 0), (''0c'', PInt 0), (''0f'', PInt 0), (''0d'', PInt 0),
                         (''0e'', PInt 0), (''10'', PInt 0), (''01'', PInt 10), (''03'', PInt 30)]),
                Log INFO ''Workflow completed'' [100]]\<rparr>)
   \<and> map (\<lambda>b. map_of [(''0b'', PInt 0), (''0c'', PInt 0), (''0f'', PInt 0), (''0d'', PInt 0),
                          (''0e'', PInt 0), (''10'', PInt 0), (''01'', PInt 10), (''03'', PInt 30)]
                    (str_of_uuid example_engine (b_id b)))
       (branches example_workflow) =
     [Some (PInt 0), Some (PInt 0), Some (PInt 0), Some (PInt 0), Some (PInt 0), Some (PInt 0)]
   \<and> map (\<lambda>k. map_of [(''0b'', PInt 0), (''0c'', PInt 0), (''0f'', PInt 0), (''0d'', PInt 0),
                          (''0e'', PInt 0), (''10'', PInt 0), (''01'', PInt 10), (''03'', PInt 30)]
                    (str_of_uuid example_engine k))
       [1, 3] =
     [Some (PInt 10), Some (PInt 30)]"
proof -
  let ?snap = "[(''0b'', PInt 0), (''0c'', PInt 0), (''0f'', PInt 0), (''0d'', PInt 0),
                (''0e'', PInt 0), (''10'', PInt 0), (''01'', PInt 10), (''03'', PInt 30)]"
  define first where
    "first = \<lparr>is_paused = False, abort = False,
       accumulator = [(11::uuid, PInt 0), (12, PInt 0), (15, PInt 0), (13, PInt 0), (14, PInt 0),
                      (16, PInt 0), (1, PInt 10), (3, PInt 30)],
       execution_id = ''run-1'', instance_repo = Some ([]::int list),
       executing_action = Some (3::uuid),
       trace = [Log INFO ''Executing workflow'' [100],
                Signal WorkflowExecutionStart 100 None,
                Log DEBUG ''Executing action of workflow'' [1, 100],
                Signal ConditionalExpressionFalse 25 None,
                Signal ConditionalExpressionTrue 23 None,
                Log DEBUG ''Branch with destination chosen by workflow'' [13, 3, 100],
                Log DEBUG ''Executing action of workflow'' [3, 100],
                Signal ConditionalExpressionFalse 26 None,
                Signal WorkflowShutdown 100 (Some ?snap),
                Log INFO ''Workflow completed'' [100]]\<rparr>"
  define final where
    "final = first\<lparr>execution_id := ''run-2'',
       trace := trace first @
               [Log INFO ''Executing workflow'' [100],
                Signal WorkflowExecutionStart 100 None,
                Log DEBUG ''Executing action of workflow'' [3, 100],
                Signal ConditionalExpressionFalse 26 None,
                Signal WorkflowShutdown 100 (Some ?snap),
                Log INFO ''Workflow completed'' [100]]\<rparr>"
  have start: "first = after_calls example_caps example_engine example_workflow
                 (init_on_load example_workflow)
                 [Execute (Suc (Suc 0)) ''run-1'' None None False]"
    by (simp add: after_calls_def apply_call_def execute_def example_workflow_simps
          init_on_load_def example_seed example_step_1 example_step_3 shutdown_def
          shutdown_instances_def snapshot_def example_str first_def)
  have ran: "execute (Suc 0) example_caps example_engine example_workflow ''run-2''
               (Some (Start_uuid 3)) None False first = (Some (Inr (PInt 30)), final)"
    by (simp add: execute_def example_workflow_simps example_step_3 shutdown_def
          shutdown_instances_def snapshot_def example_str first_def final_def)
  have finished: "completed example_workflow final"
    by (simp add: completed_def final_def first_def example_workflow_simps)
  have ws: "execute_writes (Suc 0) example_caps example_engine example_workflow ''run-2''
              (Some (Start_uuid 3)) None False first = [(3, PInt 30)]"
    by (simp add: execute_writes_def start_node_def started_def example_workflow_simps
          example_step_3 first_def)
  have snap: "snapshot (str_of_uuid example_engine) (accumulator final) = ?snap"
    by (simp add: final_def first_def snapshot_def example_str)
  have inj: "inj_on (str_of_uuid example_engine) (fst ` set (accumulator final))"
    by (simp add: final_def first_def example_str)
  have fresh: "\<forall>b \<in> set (branches example_workflow). b_id b \<notin> n_id ` nodes example_workflow"
    by (simp add: nodes_def example_workflow_def example_branch_def example_node_def)
  have keys: "1 \<in> fst ` set (accumulator final)" "3 \<in> fst ` set (accumulator final)"
    by (simp_all add: final_def first_def)
  note entries = shutdown_snapshot_entries [OF disjI1 [OF refl] start ran finished]
  note ninth = entries [THEN conjunct2, THEN conjunct2, THEN conjunct2, THEN conjunct2,
                        THEN conjunct2, THEN conjunct2, THEN conjunct2, THEN conjunct2,
                        THEN conjunct1, THEN mp, OF inj]
  have "map_of (snapshot (str_of_uuid example_engine) (accumulator final))
          (str_of_uuid example_engine (b_id b)) = Some (PInt 0)"
    if "b \<in> set (branches example_workflow)" for b
    using ninth [THEN conjunct2, THEN bspec, OF that] fresh that by simp
  then have "map (\<lambda>b. map_of ?snap (str_of_uuid example_engine (b_id b)))
               (branches example_workflow) =
             map (\<lambda>b. Some (PInt 0)) (branches example_workflow)"
    unfolding snap by (intro map_cong) simp_all
  also have "\<dots> = [Some (PInt 0), Some (PInt 0), Some (PInt 0), Some (PInt 0), Some (PInt 0),
                    Some (PInt 0)]"
    by (simp add: example_workflow_def)
  finally have branch_entries:
    "map (\<lambda>b. map_of ?snap (str_of_uuid example_engine (b_id b))) (branches example_workflow) =
       [Some (PInt 0), Some (PInt 0), Some (PInt 0), Some (PInt 0), Some (PInt 0), Some (PInt 0)]" .
  have "map_of ?snap (str_of_uuid example_engine 1) = Some (PInt 10)"
    using ninth [THEN conjunct1, THEN bspec, OF keys(1)]
    unfolding ws snap by (simp add: first_def)
  moreover
  have "map_of ?snap (str_of_uuid example_engine 3) = Some (PInt 30)"
    using ninth [THEN conjunct1, THEN bspec, OF keys(2)]
    unfolding ws snap by (simp add: first_def)
  ultimately have node_entries:
    "map (\<lambda>k. map_of ?snap (str_of_uuid example_engine k)) [1, 3] =
       [Some (PInt 10), Some (PInt 30)]"
    by simp
  from ran have "execute (Suc 0) example_caps example_engine example_workflow ''run-2''
               (Some (Start_uuid 3)) None False
               (after_calls example_caps example_engine example_workflow
                  (init_on_load example_workflow)
                  [Execute (Suc (Suc 0)) ''run-1'' None None False]) =
               (Some (Inr (PInt 30)), final)"
    unfolding start .
  then show ?thesis
    using branch_entries node_entries unfolding final_def first_def by simp
qed

section \<open>Properties of the results receiver\<close>

lemma send_callback_eq:
  "send_callback env r m =
     (raised env (Message m),
      r\<lparr>workflows_executed :=
           workflows_executed r + (if counted env (Message m) then 1 else 0),
        republished :=
           republished r @ (case delivered env (Message m) of None \<Rightarrow> [] | Some d \<Rightarrow> [d])\<rparr>)"
proof (cases "to_event_callback env m")
  case (Inl e)
  then show ?thesis
    by (cases r) (simp add: send_callback_def raised_def delivered_def counted_def)
next
  case (Inr t)
  obtain ev sd d where t: "t = (ev, sd, d)" by (cases t) auto
  show ?thesis
  proof (cases ev)
    case None
    with Inr t show ?thesis
      by (cases r; cases sd)
         (simp_all add: send_callback_def raised_def delivered_def counted_def)
  next
    case (Some e)
    note ev = this
    show ?thesis
    proof (cases sd)
      case None
      with Inr t ev show ?thesis
        by (cases r) (simp add: send_callback_def raised_def delivered_def counted_def)
    next
      case (Some x)
      note sd = this
      show ?thesis
      proof (cases "event_send env e x d")
        case None
        with Inr t ev sd show ?thesis
          by (cases r)
             (simp add: send_callback_def raised_def delivered_def counted_def
                increment_execution_count_def Let_def)
      next
        case (Some err)
        with Inr t ev sd show ?thesis
          by (cases r) (simp add: send_callback_def raised_def delivered_def counted_def)
      qed
    qed
  qed
qed

lemma receive_results_append:
  assumes "\<not> thread_exit r"
      and "Exit_requested \<notin> set xs"
      and "\<forall>x \<in> set xs. raised env x = None"
  shows "receive_results env (xs @ zs) r =
           receive_results env zs
             (r\<lparr>workflows_executed := workflows_executed r + length (filter (counted env) xs),
                republished := republished r @ List.map_filter (delivered env) xs\<rparr>)"
  using assms
proof (induction xs arbitrary: r)
  case Nil
  then show ?case by (simp add:)
next
  case (Cons x xs)
  show ?case
  proof (cases x)
    case Exit_requested
    with Cons.prems show ?thesis by simp
  next
    case No_message
    have quiet: "\<not> counted env No_message" "delivered env No_message = None"
      by (simp_all add: counted_def delivered_def)
    have "receive_results env (xs @ zs) r =
            receive_results env zs
              (r\<lparr>workflows_executed := workflows_executed r + length (filter (counted env) xs),
                 republished := republished r @ List.map_filter (delivered env) xs\<rparr>)"
      using Cons.IH [of r] Cons.prems by simp
    then show ?thesis
      using No_message Cons.prems(1) quiet by (simp add:)
  next
    case (Message m)
    define r' where
      "r' = r\<lparr>workflows_executed :=
                 workflows_executed r + (if counted env (Message m) then 1 else 0),
              republished :=
                 republished r @ (case delivered env (Message m) of None \<Rightarrow> [] | Some d \<Rightarrow> [d])\<rparr>"
    have quiet: "raised env (Message m) = None"
      using Cons.prems(3) Message by simp
    have sc: "send_callback env r m = (None, r')"
      using send_callback_eq [of env r m] quiet by (simp add: r'_def)
    have te: "\<not> thread_exit r'"
      using Cons.prems(1) by (simp add: r'_def)
    have ih: "receive_results env (xs @ zs) r' =
                receive_results env zs
                  (r'\<lparr>workflows_executed :=
                        workflows_executed r' + length (filter (counted env) xs),
                      republished := republished r' @ List.map_filter (delivered env) xs\<rparr>)"
      using Cons.IH [OF te] Cons.prems by simp
    have st: "r'\<lparr>workflows_executed := workflows_executed r' + length (filter (counted env) xs),
                 republished := republished r' @ List.map_filter (delivered env) xs\<rparr> =
              r\<lparr>workflows_executed :=
                   workflows_executed r + length (filter (counted env) (x # xs)),
                republished := republished r @ List.map_filter (delivered env) (x # xs)\<rparr>"
      unfolding r'_def Message
      by (cases r; cases "delivered env (Message m)")
         (simp_all add:)
    show ?thesis
      using Message Cons.prems(1) sc ih st by simp
  qed
qed

text \<open>
  C8, as the code has it. As long as handling no arrival raises (neither the converter nor
  a subscriber) and no exit is requested, the loop is still polling after any sequence of
  arrivals; the executions counter has grown by the number of arrivals delivered as
  WorkflowShutdown or WorkflowAborted, and the events republished are exactly those
  delivered, in order: a message with no event or no sender leaves no trace. The first
  arrival whose handling raises ends the loop with that exception, in the state the
  arrivals before it have left; whatever arrives after it is never handled.
\<close>

theorem receive_results_continues:
  assumes "\<not> thread_exit r"
      and "Exit_requested \<notin> set xs"
      and "\<forall>x \<in> set xs. raised env x = None"
  shows "receive_results env xs r =
           (Polling,
            r\<lparr>workflows_executed := workflows_executed r + length (filter (counted env) xs),
              republished := republished r @ List.map_filter (delivered env) xs\<rparr>)
       \<and> (raised env x = Some e \<longrightarrow>
            receive_results env (xs @ x # ys) r =
              (Raised e,
               r\<lparr>workflows_executed := workflows_executed r + length (filter (counted env) xs),
                 republished := republished r @ List.map_filter (delivered env) xs\<rparr>))"
proof (intro conjI impI)
  show "receive_results env xs r =
          (Polling,
           r\<lparr>workflows_executed := workflows_executed r + length (filter (counted env) xs),
             republished := republished r @ List.map_filter (delivered env) xs\<rparr>)"
    using receive_results_append [OF assms, of "[]"] assms(1) by simp
next
  assume rs: "raised env x = Some e"
  then obtain m where x: "x = Message m"
    by (cases x) (simp_all add: raised_def)
  define r' where
    "r' = r\<lparr>workflows_executed := workflows_executed r + length (filter (counted env) xs),
            republished := republished r @ List.map_filter (delivered env) xs\<rparr>"
  have te: "\<not> thread_exit r'"
    using assms(1) by (simp add: r'_def)
  have quiet: "\<not> counted env (Message m)" "delivered env (Message m) = None"
    using rs x
    by (auto simp: counted_def delivered_def raised_def split: sum.splits option.splits)
  have "send_callback env r' m = (Some e, r')"
    using send_callback_eq [of env r' m] rs x quiet by simp
  then have "receive_results env (x # ys) r' = (Raised e, r')"
    using te x by simp
  then show "receive_results env (xs @ x # ys) r =
               (Raised e,
                r\<lparr>workflows_executed := workflows_executed r + length (filter (counted env) xs),
                  republished := republished r @ List.map_filter (delivered env) xs\<rparr>)"
    using receive_results_append [OF assms, of "x # ys"] by (simp add: r'_def)
qed

lemma example_receiver_simps:
  "raised example_receiver_env (Message []) = Some (OtherException ''DecodeError'')"
  "raised example_receiver_env (Message [5]) = Some (OtherException ''KeyError'')"
  "raised example_receiver_env (Message [1]) = None"
  "raised example_receiver_env (Message [2]) = None"
  "raised example_receiver_env (Message [3]) = None"
  "raised example_receiver_env (Message [4]) = None"
  "raised example_receiver_env (Message [9]) = None"
  "raised example_receiver_env No_message = None"
  "delivered example_receiver_env (Message [1]) = Some (WorkflowShutdown, PDict [], PNone)"
  "delivered example_receiver_env (Message [2]) = Some (WorkflowAborted, PDict [], PNone)"
  "delivered example_receiver_env (Message [3]) = None"
  "delivered example_receiver_env (Message [4]) = Some (WorkflowPaused, PDict [], PNone)"
  "delivered example_receiver_env (Message [9]) = None"
  "delivered example_receiver_env No_message = None"
  by (simp_all add: raised_def delivered_def example_receiver_env_def)

theorem receive_results_continues_witness:
  "receive_results example_receiver_env
     [Message [1], No_message, Message [9], Message [3], Message [4], Message [2]]
     receiver_init =
     (Polling,
      \<lparr>thread_exit = False, workflows_executed = 2,
       republished = [(WorkflowShutdown, PDict [], PNone), (WorkflowPaused, PDict [], PNone),
                      (WorkflowAborted, PDict [], PNone)],
       socket_closed = False\<rparr>)
   \<and> receive_results example_receiver_env
       ([Message [1], No_message, Message [9], Message [3], Message [4], Message [2]]
        @ Message [] # [Message [1]])
       receiver_init =
     (Raised (OtherException ''DecodeError''),
      \<lparr>thread_exit = False, workflows_executed = 2,
       republished = [(WorkflowShutdown, PDict [], PNone), (WorkflowPaused, PDict [], PNone),
                      (WorkflowAborted, PDict [], PNone)],
       socket_closed = False\<rparr>)
   \<and> receive_results example_receiver_env
       ([Message [1], No_message, Message [9], Message [3], Message [4], Message [2]]
        @ Message [5] # [Message [1]])
       receiver_init =
     (Raised (OtherException ''KeyError''),
      \<lparr>thread_exit = False, workflows_executed = 2,
       republished = [(WorkflowShutdown, PDict [], PNone), (WorkflowPaused, PDict [], PNone),
                      (WorkflowAborted, PDict [], PNone)],
       socket_closed = False\<rparr>)"
proof -
  let ?xs = "[Message [1], No_message, Message [9], Message [3], Message [4], Message [2]]"
  have h1: "\<not> thread_exit receiver_init" by (simp add: receiver_init_def)
  have h2: "Exit_requested \<notin> set ?xs" by simp
  have h3: "\<forall>x \<in> set ?xs. raised example_receiver_env x = None"
    by (simp add: example_receiver_simps)
  have st: "receiver_init
              \<lparr>workflows_executed :=
                 workflows_executed receiver_init +
                 length (filter (counted example_receiver_env) ?xs),
               republished :=
                 republished receiver_init @ List.map_filter (delivered example_receiver_env) ?xs\<rparr>
            = \<lparr>thread_exit = False, workflows_executed = 2,
               republished = [(WorkflowShutdown, PDict [], PNone),
                              (WorkflowPaused, PDict [], PNone),
                              (WorkflowAborted, PDict [], PNone)],
               socket_closed = False\<rparr>"
    by (simp add: receiver_init_def counted_def example_receiver_simps)
  from receive_results_continues [OF h1 h2 h3, where x = "Message []"
         and e = "OtherException ''DecodeError''" and ys = "[Message [1]]"]
       receive_results_continues [OF h1 h2 h3, where x = "Message [5]"
         and e = "OtherException ''KeyError''" and ys = "[Message [1]]"]
  show ?thesis
    unfolding st by (simp add: example_receiver_simps)
qed

text \<open>
  The loop has no handler around \<open>_send_callback\<close>: a message the converter raises on
  ends the loop with that exception, and a later WorkflowShutdown is never counted. A
  WorkflowShutdown that arrives without a sender is dropped without being counted.
\<close>

theorem receive_results_counterexample:
  "receive_results example_receiver_env [Message [], Message [1]] receiver_init =
     (Raised (OtherException ''DecodeError''), receiver_init)
   \<and> receive_results example_receiver_env [Message [3]] receiver_init = (Polling, receiver_init)"
  by (simp add: example_receiver_env_def send_callback_def receiver_init_def)

section \<open>Properties of the executor\<close>

text \<open>
  When a status record exists (and the manager has been created), \<open>pause_workflow\<close>
  returns whether the status is running, and forwards the pause exactly in that case.
\<close>

lemma pause_workflow_found:
  assumes "find (\<lambda>row. ws_execution_id row = exec_id) db = Some row"
      and "manager ex = Some sent"
  shows "fst (pause_workflow db ex exec_id) = Inr (ws_status row = running)"
    and "manager (snd (pause_workflow db ex exec_id)) =
           Some (if ws_status row = running then sent @ [(PAUSE, exec_id)] else sent)"
  using assms by (simp_all add: pause_workflow_def Let_def)

text \<open>
  C9. With no status record for the execution id, \<open>pause_workflow\<close> does not return
  \<open>False\<close>: reading \<open>__dict__\<close> of \<open>None\<close> raises AttributeError before the test of
  the status is reached.
\<close>

theorem pause_workflow_missing_status:
  "pause_workflow [] \<lparr>manager = Some [], printed = [], warnings = []\<rparr> ''2d3c1b0a'' =
     (Inl AttributeError, \<lparr>manager = Some [], printed = [], warnings = []\<rparr>)"
  by (simp add: pause_workflow_def)




end
